theory Spec2Isabelle
  imports Main "HOL-Library.Word"
begin

section \<open>NostrClient: data model\<close>

text \<open>
  A shallow embedding of the class \<open>NostrClient\<close> (connection management on top of
  the library nostr-tools). The private fields of the class are the fields of the record
  \<open>client\<close>; everything the methods touch outside the object (the storage backend, the
  random key source, the console, the relay pool, the timers) is the record \<open>world\<close>,
  passed in and returned. The functions of nostr-tools and the behaviour of the relays are
  not code of the class: they are the fields of the record \<open>env\<close>, a parameter of
  every method.
\<close>

type_synonym bytes = "8 word list"

text \<open>A call that either returns a value or throws.\<close>

datatype 'a outcome = Returns 'a | Throws

datatype error = Error string | Undefined

text \<open>
  The event types. \<open>event_template\<close> is
  \<open>Omit<NostrEvent, 'id' | 'pubkey' | 'created_at' | 'sig'>\<close>, the argument of
  \<open>publish\<close>; \<open>unsigned_event\<close> is what \<open>publish\<close> hands to \<open>finalizeEvent\<close>.
\<close>

record event_template =
  kind :: nat
  tags :: "string list list"
  content :: string

record unsigned_event = event_template +
  created_at :: nat

record nostr_event = unsigned_event +
  event_id :: string
  pubkey :: string
  sig :: string

datatype filter = Filter (kinds: "nat list") (tag_values: "(string \<times> string list) list")

text \<open>The result of \<open>nip19.decode\<close>: an \<open>nsec\<close> with its bytes, or an entity of another type.\<close>

datatype decoded = Nsec bytes | OtherEntity string

text \<open>What one relay does with a published event: the promise of \<open>pool.publish\<close> for it.\<close>

datatype relay_reply = Accepts | Rejects | NeverSettles

record env =
  decode :: "string \<Rightarrow> decoded outcome"
  nsecEncode :: "bytes \<Rightarrow> string"
  getPublicKey :: "bytes \<Rightarrow> string outcome"
  generateSecretKey :: "nat \<Rightarrow> bytes"
  finalizeEvent :: "unsigned_event \<Rightarrow> bytes \<Rightarrow> nostr_event"
  relay_reply :: "nat \<Rightarrow> string \<Rightarrow> nostr_event \<Rightarrow> relay_reply"
  subscribeMany_throws :: "nat \<Rightarrow> bool"
  backoff_factor :: nat

text \<open>
  The storage backend of \<open>NostrClientOptions\<close>: \<open>getItem\<close> and \<open>setItem\<close> over a
  backend state of any type \<open>'s\<close>. Either may throw, and may change the backend state
  before it does.
\<close>

record 's storage_backend =
  getItem :: "string \<Rightarrow> 's \<Rightarrow> string option outcome \<times> 's"
  setItem :: "string \<Rightarrow> string \<Rightarrow> 's \<Rightarrow> unit outcome \<times> 's"

record retry_options =
  maxAttempts :: nat
  initialDelay :: nat
  maxDelay :: nat

text \<open>A \<open>SimplePool\<close> object, identified by the order of its creation.\<close>

datatype pool = SimplePool nat

datatype storage_call = GetItem string | SetItem string string

datatype console_entry =
    Warn string
  | Log string
  | LogFilter string filter
  | LogError string

record 's world =
  store :: 's
  storage_calls :: "storage_call list"
  keys_drawn :: nat
  pools_created :: nat
  pool_closes :: "(pool \<times> string list) list"
  now_ms :: nat
  sign_calls :: "(unsigned_event \<times> bytes) list"
  sends :: "(pool \<times> string list \<times> nostr_event) list"
  slept :: "nat list"
  console :: "console_entry list"
  subs_opened :: "(pool \<times> string list \<times> filter) list"
  subs_closed :: "nat list"
  timers :: "nat list"

record 's client =
  pool :: "pool option"
  secretKey :: "bytes option"
  u_publicKey :: string
  u_isConnected :: bool
  relays :: "string list"
  storageKeyPrefix :: string
  storage :: "'s storage_backend"
  publishRetry :: retry_options

record 's client_options =
  opt_relays :: "string list option"
  opt_storageKeyPrefix :: "string option"
  opt_storage :: "'s storage_backend option"
  opt_publishRetry :: "retry_options option"

section \<open>Constructor and accessors\<close>

text \<open>
  \<open>DEFAULT_CONFIG.relays\<close> (module \<open>types\<close>) and the browser's \<open>localStorage\<close> are
  parameters of the constructor.
\<close>

definition new_client ::
  "string list \<Rightarrow> 's storage_backend \<Rightarrow> 's client_options \<Rightarrow> 's client" where
  "new_client default_relays localStorage options =
     \<lparr> pool = None,
       secretKey = None,
       u_publicKey = [],
       u_isConnected = False,
       relays = (case opt_relays options of Some r \<Rightarrow> r | None \<Rightarrow> default_relays),
       storageKeyPrefix =
         (case opt_storageKeyPrefix options of Some p \<Rightarrow> p | None \<Rightarrow> ''nostr-battle''),
       storage = (case opt_storage options of Some s \<Rightarrow> s | None \<Rightarrow> localStorage),
       publishRetry =
         (case opt_publishRetry options of
            Some r \<Rightarrow> r
          | None \<Rightarrow> \<lparr> maxAttempts = 3, initialDelay = 1000, maxDelay = 5000 \<rparr>) \<rparr>"

definition isConnected :: "'s client \<Rightarrow> bool" where
  "isConnected c = u_isConnected c"

definition publicKey :: "'s client \<Rightarrow> string" where
  "publicKey c = u_publicKey c"

section \<open>connect and disconnect\<close>

definition startsWith :: "string \<Rightarrow> string \<Rightarrow> bool" where
  "startsWith s p = (take (length p) s = p)"

text \<open>\<open>generateSecretKey()\<close>: the next key of the random source.\<close>

definition draw_key :: "env \<Rightarrow> 's world \<Rightarrow> bytes \<times> 's world" where
  "draw_key E w = (generateSecretKey E (keys_drawn w), w\<lparr>keys_drawn := Suc (keys_drawn w)\<rparr>)"

text \<open>\<open>safeStorageSet\<close>: the call is made, and an exception of \<open>setItem\<close> is ignored.\<close>

definition safeStorageSet :: "'s client \<Rightarrow> string \<Rightarrow> string \<Rightarrow> 's world \<Rightarrow> 's world" where
  "safeStorageSet c k v w =
     (case setItem (storage c) k v (store w) of
        (Returns u, s') \<Rightarrow> w\<lparr>store := s', storage_calls := storage_calls w @ [SetItem k v]\<rparr>
      | (Throws, s') \<Rightarrow> w\<lparr>store := s', storage_calls := storage_calls w @ [SetItem k v]\<rparr>)"

text \<open>
  The inner \<open>try\<close> block of \<open>connect\<close>: decode the stored text; anything but an
  \<open>nsec\<close> throws \<open>Invalid nsec\<close>, and \<open>decode\<close> may throw itself.
\<close>

definition decode_stored :: "env \<Rightarrow> string \<Rightarrow> error + bytes" where
  "decode_stored E storedNsec =
     (case decode E storedNsec of
        Throws \<Rightarrow> Inl (Error ''decode failed'')
      | Returns (Nsec d) \<Rightarrow> Inr d
      | Returns (OtherEntity t) \<Rightarrow> Inl (Error ''Invalid nsec''))"

text \<open>Both places that generate a key and persist it: lines 137-138 and 141-142.\<close>

definition generate_and_store :: "env \<Rightarrow> 's client \<Rightarrow> string \<Rightarrow> 's world \<Rightarrow> bytes \<times> 's world" where
  "generate_and_store E c nsecKey w =
     (case draw_key E w of (k, w') \<Rightarrow> (k, safeStorageSet c nsecKey (nsecEncode E k) w'))"

text \<open>
  The outer \<open>try\<close> block with its \<open>catch\<close>: the secret key \<open>connect\<close> ends up with.
  When \<open>getItem\<close> throws, the \<open>catch\<close> generates a key and stores nothing.
\<close>

definition load_or_generate :: "env \<Rightarrow> 's client \<Rightarrow> string \<Rightarrow> 's world \<Rightarrow> bytes \<times> 's world" where
  "load_or_generate E c nsecKey w =
     (case getItem (storage c) nsecKey (store w) of
        (r, s') \<Rightarrow>
          (let w1 = w\<lparr>store := s', storage_calls := storage_calls w @ [GetItem nsecKey]\<rparr> in
           case r of
             Throws \<Rightarrow> draw_key E w1
           | Returns None \<Rightarrow> generate_and_store E c nsecKey w1
           | Returns (Some storedNsec) \<Rightarrow>
               if startsWith storedNsec ''nsec1'' then
                 (case decode_stored E storedNsec of
                    Inr d \<Rightarrow> (d, w1)
                  | Inl e \<Rightarrow> generate_and_store E c nsecKey w1)
               else generate_and_store E c nsecKey w1))"

text \<open>
  \<open>connect\<close>: the result says whether the call returned or threw, and the client and
  the world are those it leaves behind either way. The secret key is assigned inside the
  \<open>try\<close> blocks; \<open>getPublicKey\<close> is called after them (line 149) and nothing catches
  what it throws: the call then ends there, with the secret key already assigned and the
  public key, the pool and the connected flag as they were.
\<close>

definition connect ::
  "env \<Rightarrow> 's client \<Rightarrow> 's world \<Rightarrow> unit outcome \<times> 's client \<times> 's world" where
  "connect E c w =
     (if u_isConnected c then (Returns (), c, w)
      else
        (case load_or_generate E c (storageKeyPrefix c @ ''-nsec'') w of
           (k, w') \<Rightarrow>
             (case getPublicKey E k of
                Throws \<Rightarrow> (Throws, c\<lparr>secretKey := Some k\<rparr>, w')
              | Returns pk \<Rightarrow>
                  (Returns (),
                   c\<lparr> secretKey := Some k,
                       u_publicKey := pk,
                       pool := Some (SimplePool (pools_created w')),
                       u_isConnected := True \<rparr>,
                   w'\<lparr>pools_created := Suc (pools_created w')\<rparr>))))"

definition disconnect :: "'s client \<Rightarrow> 's world \<Rightarrow> 's client \<times> 's world" where
  "disconnect c w =
     (case pool c of
        Some p \<Rightarrow>
          (c\<lparr>pool := None, u_isConnected := False\<rparr>,
           w\<lparr>pool_closes := pool_closes w @ [(p, relays c)]\<rparr>)
      | None \<Rightarrow> (c\<lparr>u_isConnected := False\<rparr>, w))"

section \<open>publish\<close>

text \<open>The state of a promise, as far as its caller can see it.\<close>

datatype 'a promise = Fulfilled 'a | Rejected error | Pending

text \<open>
  \<open>Promise.any\<close> over the promises of \<open>pool.publish\<close>, one per relay: fulfilled when
  one of them is, rejected (with an \<open>AggregateError\<close>) when all of them are rejected, which
  is also the case of no promise at all, and pending otherwise.
\<close>

definition promise_any :: "relay_reply list \<Rightarrow> unit promise" where
  "promise_any rs =
     (if list_ex (\<lambda>r. r = Accepts) rs then Fulfilled ()
      else if list_all (\<lambda>r. r = Rejects) rs then Rejected (Error ''All promises were rejected'')
      else Pending)"

text \<open>
  One attempt, \<open>Promise.any(this.pool!.publish(this.relays, event))\<close>: the event is sent to
  every configured relay; the replies are those of the environment for this send.
\<close>

definition publish_attempt ::
  "env \<Rightarrow> pool \<Rightarrow> string list \<Rightarrow> nostr_event \<Rightarrow> 's world \<Rightarrow> unit promise \<times> 's world" where
  "publish_attempt E p urls ev w =
     (promise_any (map (\<lambda>url. relay_reply E (length (sends w)) url ev) urls),
      w\<lparr>sends := sends w @ [(p, urls, ev)]\<rparr>)"

definition sleep_ms :: "nat \<Rightarrow> 's world \<Rightarrow> 's world" where
  "sleep_ms d w = w\<lparr>slept := slept w @ [d], now_ms := now_ms w + d\<rparr>"

text \<open>
  Modelled from the spec: \<open>withRetry\<close> of the module \<open>retry\<close>, which is not among the
  source files. The spec: on total failure the whole attempt is retried with bounded
  exponential backoff (configurable max attempts, initial and max delay) before a failure
  is surfaced. Here: at most \<open>maxAttempts\<close> attempts; after a rejected attempt that is not
  the last one, a sleep of the current delay capped by \<open>maxDelay\<close>, then the delay is
  multiplied by the backoff factor (a parameter, the spec does not give it); the last
  rejection is surfaced. The first argument is the number of attempts left.
\<close>

fun retry_loop ::
  "nat \<Rightarrow> nat \<Rightarrow> nat \<Rightarrow> nat \<Rightarrow> error \<Rightarrow> ('w \<Rightarrow> 'a promise \<times> 'w) \<Rightarrow> (nat \<Rightarrow> 'w \<Rightarrow> 'w) \<Rightarrow> 'w
     \<Rightarrow> 'a promise \<times> 'w" where
  "retry_loop 0 factor delay cap lasterr fn pause w = (Rejected lasterr, w)"
| "retry_loop (Suc n) factor delay cap lasterr fn pause w =
     (case fn w of
        (Fulfilled v, w1) \<Rightarrow> (Fulfilled v, w1)
      | (Pending, w1) \<Rightarrow> (Pending, w1)
      | (Rejected e, w1) \<Rightarrow>
          if n = 0 then (Rejected e, w1)
          else retry_loop n factor (delay * factor) cap e fn pause (pause (min delay cap) w1))"

definition withRetry ::
  "env \<Rightarrow> ('s world \<Rightarrow> 'a promise \<times> 's world) \<Rightarrow> retry_options \<Rightarrow> 's world
     \<Rightarrow> 'a promise \<times> 's world" where
  "withRetry E fn options w =
     retry_loop (maxAttempts options) (backoff_factor E) (initialDelay options)
       (maxDelay options) (Error ''retry: no attempt made'') fn sleep_ms w"

definition not_connected :: error where
  "not_connected = Error ''NostrClient not connected. Call connect() first.''"

definition publish ::
  "env \<Rightarrow> 's client \<Rightarrow> event_template \<Rightarrow> 's world \<Rightarrow> unit promise \<times> 's world" where
  "publish E c eventTemplate w =
     (case pool c of
        None \<Rightarrow> (Rejected not_connected, w)
      | Some p \<Rightarrow>
          (case secretKey c of
             None \<Rightarrow> (Rejected not_connected, w)
           | Some k \<Rightarrow>
               (let u = \<lparr> kind = kind eventTemplate,
                         tags = tags eventTemplate,
                         content = content eventTemplate,
                         created_at = now_ms w div 1000 \<rparr>;
                    event = finalizeEvent E u k;
                    w1 = w\<lparr>sign_calls := sign_calls w @ [(u, k)]\<rparr>
                in withRetry E (publish_attempt E p (relays c) event) (publishRetry c) w1)))"

section \<open>subscribe\<close>

text \<open>
  The function \<open>subscribe\<close> returns: the empty closure \<open>() => {}\<close>, or the closure that
  closes the subscription it opened (identified by its position among the subscriptions
  opened so far).
\<close>

datatype unsubscribe = Noop | CloseSub nat

definition call_unsubscribe :: "unsubscribe \<Rightarrow> 's world \<Rightarrow> 's world" where
  "call_unsubscribe u w =
     (case u of Noop \<Rightarrow> w | CloseSub i \<Rightarrow> w\<lparr>subs_closed := subs_closed w @ [i]\<rparr>)"

text \<open>The \<open>try\<close> block of \<open>subscribe\<close>: \<open>subscribeMany\<close> with the first filter; it may throw.\<close>

definition subscribe_try ::
  "env \<Rightarrow> pool \<Rightarrow> string list \<Rightarrow> filter \<Rightarrow> 's world \<Rightarrow> (error + unsubscribe) \<times> 's world" where
  "subscribe_try E p urls f w =
     (if subscribeMany_throws E (length (subs_opened w)) then (Inl (Error ''subscribeMany''), w)
      else (Inr (CloseSub (length (subs_opened w))),
            w\<lparr>subs_opened := subs_opened w @ [(p, urls, f)]\<rparr>))"

definition subscribe ::
  "env \<Rightarrow> 's client \<Rightarrow> filter list \<Rightarrow> 's world \<Rightarrow> unsubscribe \<times> 's world" where
  "subscribe E c filters w =
     (case pool c of
        None \<Rightarrow>
          (Noop, w\<lparr>console := console w @ [Warn ''NostrClient not connected. Call connect() first.'']\<rparr>)
      | Some p \<Rightarrow>
          (case filters of
             [] \<Rightarrow> (Noop, w\<lparr>console := console w @ [Warn ''[NostrClient] No filters provided'']\<rparr>)
           | f0 # others \<Rightarrow>
               (let w1 = w\<lparr>console := console w @ [LogFilter ''[NostrClient] Subscribing with filter:'' f0]\<rparr>
                in case subscribe_try E p (relays c) f0 w1 of
                     (Inr u, w2) \<Rightarrow> (u, w2)
                   | (Inl e, w2) \<Rightarrow>
                       (Noop, w2\<lparr>console := console w2 @ [LogError ''Failed to subscribe:'']\<rparr>))))"

section \<open>fetch\<close>

text \<open>A close reason as the callback receives it: the guard \<open>typeof r === 'string'\<close> of
  the source allows for an entry that is no string.\<close>

datatype js_value = JString string | JUndefined

text \<open>
  \<open>toLowerCase\<close> on a string of bytes: the letters A to Z are mapped to a to z, every
  other character is left as it is.
\<close>

definition toLowerCase_char :: "char \<Rightarrow> char" where
  "toLowerCase_char c =
     (if 65 \<le> (of_char c :: nat) \<and> (of_char c :: nat) \<le> 90 then char_of ((of_char c :: nat) + 32)
      else c)"

definition toLowerCase :: "string \<Rightarrow> string" where
  "toLowerCase s = map toLowerCase_char s"

fun js_includes :: "string \<Rightarrow> string \<Rightarrow> bool" where
  "js_includes [] p = (p = [])"
| "js_includes (c # cs) p = (startsWith (c # cs) p \<or> js_includes cs p)"

definition is_eose_reason :: "js_value \<Rightarrow> bool" where
  "is_eose_reason r =
     (case r of JString s \<Rightarrow> js_includes (toLowerCase s) ''eose'' | JUndefined \<Rightarrow> False)"

definition hasEose :: "js_value list \<Rightarrow> bool" where
  "hasEose reasons = list_ex is_eose_reason reasons"

text \<open>\<open>Array.prototype.join\<close>: an undefined entry is joined as the empty string.\<close>

definition js_text :: "js_value \<Rightarrow> string" where
  "js_text r = (case r of JString s \<Rightarrow> s | JUndefined \<Rightarrow> [])"

fun js_join :: "js_value list \<Rightarrow> string" where
  "js_join [] = []"
| "js_join [r] = js_text r"
| "js_join (r # r' # rs) = js_text r @ '', '' @ js_join (r' # rs)"

text \<open>
  The variables of one call of \<open>fetch\<close>: the array \<open>events\<close>, the flag \<open>resolved\<close>, the
  number of calls of \<open>sub.close()\<close>, and every call of \<open>resolve\<close> and \<open>reject\<close> in
  order. \<open>resolve(events)\<close> passes the array itself, so the value the promise delivers
  is read from \<open>events\<close>.
\<close>

datatype settle = ResolveEvents | RejectWith error

record fetch_state =
  events :: "nostr_event list"
  resolved :: bool
  sub_close_calls :: nat
  settles :: "settle list"

definition finish :: "bool \<Rightarrow> error \<Rightarrow> fetch_state \<Rightarrow> fetch_state" where
  "finish success err st =
     (if resolved st then st
      else
        (let st1 = st\<lparr>resolved := True, sub_close_calls := Suc (sub_close_calls st)\<rparr> in
         if success then st1\<lparr>settles := settles st1 @ [ResolveEvents]\<rparr>
         else st1\<lparr>settles := settles st1 @ [RejectWith err]\<rparr>))"

definition onevent :: "nostr_event \<Rightarrow> fetch_state \<Rightarrow> fetch_state" where
  "onevent event st = st\<lparr>events := events st @ [event]\<rparr>"

definition onclose :: "js_value list \<Rightarrow> fetch_state \<Rightarrow> fetch_state" where
  "onclose reasons st =
     (if hasEose reasons then finish True Undefined st
      else finish False (Error (''No relay response: '' @ js_join reasons)) st)"

definition on_timeout :: "fetch_state \<Rightarrow> fetch_state" where
  "on_timeout st = finish False (Error ''No relay response: timeout'') st"

text \<open>
  \<open>fetch\<close> up to the return of the promise: rejected at once without a pool; otherwise
  the subscription is opened, the timer is set (5000 ms when \<open>timeoutMs\<close> is not given)
  and the promise is pending.
\<close>

definition fetch ::
  "'s client \<Rightarrow> filter \<Rightarrow> nat option \<Rightarrow> 's world \<Rightarrow> (error + fetch_state) \<times> 's world" where
  "fetch c f timeoutMs w =
     (case pool c of
        None \<Rightarrow> (Inl not_connected, w)
      | Some p \<Rightarrow>
          (Inr \<lparr> events = [], resolved = False, sub_close_calls = 0, settles = [] \<rparr>,
           w\<lparr> subs_opened := subs_opened w @ [(p, relays c, f)],
               timers := timers w @ [case timeoutMs of None \<Rightarrow> 5000 | Some t \<Rightarrow> t] \<rparr>))"

text \<open>
  What happens after \<open>fetch\<close> has returned: the subscription that \<open>fetch\<close> opened
  calls \<open>onevent\<close> and \<open>onclose\<close>, the timer that \<open>fetch\<close> set calls its callback,
  in any order and any number of times. Each callback runs the handler the source gives
  it, and nothing else: \<open>onevent\<close> pushes whether or not the promise is settled.
\<close>

datatype callback = OnEvent nostr_event | OnClose "js_value list" | TimerFired

fun deliver :: "fetch_state \<Rightarrow> callback \<Rightarrow> fetch_state" where
  "deliver st (OnEvent e) = onevent e st"
| "deliver st (OnClose reasons) = onclose reasons st"
| "deliver st TimerFired = on_timeout st"

definition run_callbacks :: "fetch_state \<Rightarrow> callback list \<Rightarrow> fetch_state" where
  "run_callbacks st cbs = foldl deliver st cbs"

text \<open>
  The promise of \<open>fetch\<close>: settled by the first call of \<open>resolve\<close> or \<open>reject\<close>.
  A fulfilled promise holds the array \<open>events\<close> itself, not a copy: what its holder
  reads is the array as it is now.
\<close>

definition promise_of :: "fetch_state \<Rightarrow> nostr_event list promise" where
  "promise_of st =
     (case settles st of
        [] \<Rightarrow> Pending
      | ResolveEvents # later \<Rightarrow> Fulfilled (events st)
      | RejectWith e # later \<Rightarrow> Rejected e)"

section \<open>Sequences of calls\<close>

text \<open>
  The methods as calls on one client, for statements about every history of a client. A
  call that throws or is rejected leaves the client and the world it leaves, and the
  history goes on from there.
\<close>

datatype api_call =
    Connect
  | Disconnect
  | Publish event_template
  | Subscribe "filter list"
  | Fetch filter "nat option"

fun api_step :: "env \<Rightarrow> 's client \<times> 's world \<Rightarrow> api_call \<Rightarrow> 's client \<times> 's world" where
  "api_step E (c, w) Connect = snd (connect E c w)"
| "api_step E (c, w) Disconnect = disconnect c w"
| "api_step E (c, w) (Publish t) = (c, snd (publish E c t w))"
| "api_step E (c, w) (Subscribe fs) = (c, snd (subscribe E c fs w))"
| "api_step E (c, w) (Fetch f t) = (c, snd (fetch c f t w))"

definition run_calls :: "env \<Rightarrow> 's client \<times> 's world \<Rightarrow> api_call list \<Rightarrow> 's client \<times> 's world" where
  "run_calls E cw calls = foldl (api_step E) cw calls"

text \<open>The client and the world after a history of calls on a newly constructed client.\<close>

definition client_after ::
  "env \<Rightarrow> string list \<Rightarrow> 's storage_backend \<Rightarrow> 's client_options \<Rightarrow> 's world \<Rightarrow> api_call list
     \<Rightarrow> 's client \<times> 's world" where
  "client_after E default_relays localStorage options w0 calls =
     run_calls E (new_client default_relays localStorage options, w0) calls"

section \<open>Invariants used in the proofs\<close>

text \<open>
  What every history keeps true of the private fields: the connected flag is set exactly
  when there is a pool, and while it is set there is a secret key and the public key is
  the one \<open>getPublicKey\<close> returned for it.
\<close>

definition client_ok :: "env \<Rightarrow> 's client \<Rightarrow> bool" where
  "client_ok E c =
     ((u_isConnected c = (pool c \<noteq> None)) \<and>
      (case secretKey c of
         None \<Rightarrow> \<not> u_isConnected c
       | Some k \<Rightarrow> if u_isConnected c then getPublicKey E k = Returns (u_publicKey c) else True))"

text \<open>
  What every history keeps true in an environment whose \<open>getPublicKey\<close> never throws:
  the public key is the one derived from the secret key, and empty while there is none.
\<close>

definition key_ok :: "env \<Rightarrow> 's client \<Rightarrow> bool" where
  "key_ok E c =
     (case secretKey c of
        None \<Rightarrow> u_publicKey c = []
      | Some k \<Rightarrow> getPublicKey E k = Returns (u_publicKey c))"

text \<open>The events among a sequence of callbacks, in order.\<close>

fun events_of :: "callback list \<Rightarrow> nostr_event list" where
  "events_of [] = []"
| "events_of (OnEvent e # cbs) = e # events_of cbs"
| "events_of (OnClose reasons # cbs) = events_of cbs"
| "events_of (TimerFired # cbs) = events_of cbs"

text \<open>The variables of \<open>fetch\<close> when the promise is returned.\<close>

definition fetch_start :: fetch_state where
  "fetch_start = \<lparr> events = [], resolved = False, sub_close_calls = 0, settles = [] \<rparr>"

text \<open>
  The flag \<open>resolved\<close> is set exactly when \<open>sub.close()\<close> has been called, and then
  exactly one of \<open>resolve\<close> and \<open>reject\<close> has been called, once.
\<close>

definition fetch_inv :: "fetch_state \<Rightarrow> bool" where
  "fetch_inv st =
     (if resolved st then 0 < sub_close_calls st \<and> length (settles st) = 1
      else sub_close_calls st = 0 \<and> settles st = [])"

text \<open>The replies of the configured relays to the \<open>n\<close>-th send of the pool.\<close>

definition replies :: "env \<Rightarrow> 's client \<Rightarrow> nostr_event \<Rightarrow> nat \<Rightarrow> relay_reply list" where
  "replies E c ev n = map (\<lambda>url. relay_reply E n url ev) (relays c)"

text \<open>The delays of the backoff: the \<open>i\<close>-th retry waits \<open>initialDelay * factor ^ i\<close>, capped.\<close>

definition backoff_delays :: "nat \<Rightarrow> retry_options \<Rightarrow> nat \<Rightarrow> nat list" where
  "backoff_delays factor options n =
     map (\<lambda>i. min (initialDelay options * factor ^ i) (maxDelay options)) [0..<n]"

section \<open>Concrete instances\<close>

text \<open>
  An environment, two storage backends (one in memory, one that always throws), a world
  and a client, on which the theorems below are instantiated.
\<close>

text \<open>
  The bech32 text of the secret key of 32 zero bytes: \<open>nip19.decode\<close> decodes it to an
  nsec, and \<open>getPublicKey\<close> refuses the key, zero not being a valid secp256k1 secret key.
\<close>

definition zero_nsec :: string where
  "zero_nsec = ''nsec1qqqqqqqqqqqqqqqqqqqqqqqqqqqqqqqqqqqqqqqqqqqqqqqqqqqqwkhnav''"

definition demo_env :: env where
  "demo_env =
     \<lparr> decode = (\<lambda>s. if s = ''nsec1stored'' then Returns (Nsec [1, 2, 3])
                      else if s = ''nsec1profile'' then Returns (OtherEntity ''nprofile'')
                      else if s = zero_nsec then Returns (Nsec (replicate 32 0))
                      else Throws),
       nsecEncode = (\<lambda>k. ''nsec1generated''),
       getPublicKey = (\<lambda>k. if k = replicate 32 0 then Throws
                            else if k = [1, 2, 3] then Returns ''pub-stored''
                            else Returns ''pub-generated''),
       generateSecretKey = (\<lambda>n. [7, of_nat n]),
       finalizeEvent = (\<lambda>u k.
          \<lparr> kind = kind u, tags = tags u, content = content u, created_at = created_at u,
            event_id = ''id'', pubkey = ''pub'', sig = ''sig'' \<rparr>),
       relay_reply = (\<lambda>n url ev. if url = ''wss://b'' then Accepts else Rejects),
       subscribeMany_throws = (\<lambda>n. False),
       backoff_factor = 2 \<rparr>"

text \<open>An environment whose \<open>getPublicKey\<close> accepts every key.\<close>

definition lenient_env :: env where
  "lenient_env = demo_env\<lparr>getPublicKey := (\<lambda>k. Returns ''pub-any'')\<rparr>"

text \<open>Relays that all reject the first send of the pool; from the second on, one accepts.\<close>

definition flaky_env :: env where
  "flaky_env =
     demo_env\<lparr>relay_reply := (\<lambda>n url ev. if 0 < n \<and> url = ''wss://b'' then Accepts else Rejects)\<rparr>"

definition memory_backend :: "(string \<times> string) list storage_backend" where
  "memory_backend =
     \<lparr> getItem = (\<lambda>k s. (Returns (map_of s k), s)),
       setItem = (\<lambda>k v s. (Returns (), (k, v) # s)) \<rparr>"

definition broken_backend :: "(string \<times> string) list storage_backend" where
  "broken_backend =
     \<lparr> getItem = (\<lambda>k s. (Throws, s)),
       setItem = (\<lambda>k v s. (Throws, s)) \<rparr>"

definition demo_world :: "(string \<times> string) list \<Rightarrow> (string \<times> string) list world" where
  "demo_world s =
     \<lparr> store = s, storage_calls = [], keys_drawn = 0, pools_created = 0, pool_closes = [],
       now_ms = 1700000000123, sign_calls = [], sends = [], slept = [], console = [],
       subs_opened = [], subs_closed = [], timers = [] \<rparr>"

definition demo_options :: "(string \<times> string) list client_options" where
  "demo_options =
     \<lparr> opt_relays = Some [''wss://a'', ''wss://b'', ''wss://c''],
       opt_storageKeyPrefix = None,
       opt_storage = None,
       opt_publishRetry = None \<rparr>"

definition demo_event :: nostr_event where
  "demo_event =
     \<lparr> kind = 25000, tags = [[''d'', ''room'']], content = ''{}'', created_at = 1700000000,
       event_id = ''id'', pubkey = ''pub'', sig = ''sig'' \<rparr>"

definition demo_template :: event_template where
  "demo_template = \<lparr> kind = 25000, tags = [[''d'', ''room'']], content = ''{}'' \<rparr>"

section \<open>The invariant of the private fields\<close>

lemma connect_again: "u_isConnected c \<Longrightarrow> connect E c w = (Returns (), c, w)"
  by (simp add: connect_def)

lemma connect_fresh:
  assumes "\<not> u_isConnected c"
  shows "connect E c w =
     (case getPublicKey E (fst (load_or_generate E c (storageKeyPrefix c @ ''-nsec'') w)) of
        Throws \<Rightarrow>
          (Throws,
           c\<lparr>secretKey := Some (fst (load_or_generate E c (storageKeyPrefix c @ ''-nsec'') w))\<rparr>,
           snd (load_or_generate E c (storageKeyPrefix c @ ''-nsec'') w))
      | Returns pk \<Rightarrow>
          (Returns (),
           c\<lparr> secretKey := Some (fst (load_or_generate E c (storageKeyPrefix c @ ''-nsec'') w)),
               u_publicKey := pk,
               pool := Some (SimplePool (pools_created
                        (snd (load_or_generate E c (storageKeyPrefix c @ ''-nsec'') w)))),
               u_isConnected := True \<rparr>,
           (snd (load_or_generate E c (storageKeyPrefix c @ ''-nsec'') w))
             \<lparr>pools_created := Suc (pools_created
                (snd (load_or_generate E c (storageKeyPrefix c @ ''-nsec'') w)))\<rparr>))"
  using assms by (simp add: connect_def split: prod.splits outcome.splits)

lemma connect_returned_connected:
  assumes "connect E c w = (Returns (), c', w')"
  shows "u_isConnected c'"
proof (cases "u_isConnected c")
  case True
  then show ?thesis using assms by (simp add: connect_again)
next
  case False
  then show ?thesis
    using assms by (auto simp add: connect_fresh split: outcome.splits)
qed

lemma connect_thrown_unconnected:
  assumes "connect E c w = (Throws, c', w')"
  shows "\<not> u_isConnected c \<and> u_isConnected c' = u_isConnected c \<and> pool c' = pool c
       \<and> u_publicKey c' = u_publicKey c \<and> secretKey c' \<noteq> None"
proof (cases "u_isConnected c")
  case True
  then show ?thesis using assms by (simp add: connect_again)
next
  case False
  then show ?thesis
    using assms by (auto simp add: connect_fresh split: outcome.splits)
qed

lemma client_ok_new: "client_ok E (new_client dr ls opts)"
  by (simp add: client_ok_def new_client_def)

lemma client_ok_connect:
  assumes "client_ok E c"
  shows "client_ok E (fst (snd (connect E c w)))"
proof (cases "u_isConnected c")
  case True
  then show ?thesis using assms by (simp add: connect_again)
next
  case False
  then show ?thesis
    using assms by (auto simp add: connect_fresh client_ok_def split: outcome.splits option.splits)
qed

lemma client_ok_disconnect:
  assumes "client_ok E c"
  shows "client_ok E (fst (disconnect c w))"
  using assms by (auto simp add: disconnect_def client_ok_def split: option.splits)

lemma api_step_fst:
  "fst (api_step E (c, w) call) =
     (case call of Connect \<Rightarrow> fst (snd (connect E c w)) | Disconnect \<Rightarrow> fst (disconnect c w) | _ \<Rightarrow> c)"
  by (cases call) simp_all

lemma client_ok_step:
  assumes "client_ok E (fst cw)"
  shows "client_ok E (fst (api_step E cw call))"
proof -
  obtain c w where cw: "cw = (c, w)" by (cases cw)
  show ?thesis
    using assms unfolding cw api_step_fst
    by (cases call) (simp_all add: client_ok_connect client_ok_disconnect)
qed

lemma run_calls_Nil: "run_calls E cw [] = cw"
  by (simp add: run_calls_def)

lemma run_calls_Cons: "run_calls E cw (call # calls) = run_calls E (api_step E cw call) calls"
  by (simp add: run_calls_def)

lemma run_calls_snoc: "run_calls E cw (calls @ [call]) = api_step E (run_calls E cw calls) call"
  by (simp add: run_calls_def)

lemma client_ok_run:
  "client_ok E (fst cw) \<Longrightarrow> client_ok E (fst (run_calls E cw calls))"
  by (induction calls arbitrary: cw) (simp_all add: run_calls_Nil run_calls_Cons client_ok_step)

lemma client_after_ok:
  assumes "client_after E dr ls opts w0 calls = (c, w)"
  shows "client_ok E c"
proof -
  have "client_ok E (fst (run_calls E (new_client dr ls opts, w0) calls))"
    by (rule client_ok_run) (simp add: client_ok_new)
  then show ?thesis using assms by (simp add: client_after_def)
qed

lemma client_after_snoc:
  "client_after E dr ls opts w0 (calls @ [call]) = api_step E (client_after E dr ls opts w0 calls) call"
  by (simp add: client_after_def run_calls_snoc)

lemma connected_has_pool_and_key:
  assumes "client_ok E c" "u_isConnected c"
  shows "\<exists>p k. pool c = Some p \<and> secretKey c = Some k \<and> getPublicKey E k = Returns (u_publicKey c)"
  using assms by (auto simp add: client_ok_def split: option.splits)

lemma unconnected_has_no_pool:
  assumes "client_ok E c" "\<not> u_isConnected c"
  shows "pool c = None"
  using assms by (simp add: client_ok_def)

text \<open>The first \<open>connect\<close> of the concrete client, in an environment that derives a key.\<close>

lemma first_connect_fields:
  assumes "client_after E [] memory_backend demo_options (demo_world []) [Connect] = (c, w)"
    and "getPublicKey E (generateSecretKey E 0) = Returns pk"
  shows "isConnected c"
    and "secretKey c = Some (generateSecretKey E 0)"
    and "publicKey c = pk"
    and "relays c = [''wss://a'', ''wss://b'', ''wss://c'']"
    and "publishRetry c = \<lparr> maxAttempts = 3, initialDelay = 1000, maxDelay = 5000 \<rparr>"
    and "sends w = []" and "slept w = []" and "subs_opened w = []"
    and "storage_calls w =
           [GetItem ''nostr-battle-nsec'',
            SetItem ''nostr-battle-nsec'' (nsecEncode E (generateSecretKey E 0))]"
  using assms
  by (auto simp add: client_after_def run_calls_def connect_def load_or_generate_def
      generate_and_store_def draw_key_def safeStorageSet_def new_client_def memory_backend_def
      demo_options_def demo_world_def isConnected_def publicKey_def Let_def)

lemma not_zero_key: "length k \<noteq> 32 \<Longrightarrow> (k = replicate 32 (0 :: 8 word)) = False"
  by auto

lemma demo_env_keys:
  "getPublicKey demo_env [7, 0] = Returns ''pub-generated''"
  "getPublicKey demo_env [1, 2, 3] = Returns ''pub-stored''"
  "getPublicKey demo_env (replicate 32 0) = Throws"
  by (simp_all add: demo_env_def not_zero_key)

lemma demo_env_first_key:
  "getPublicKey demo_env (generateSecretKey demo_env 0) = Returns ''pub-generated''"
  "generateSecretKey demo_env 0 = [7, 0]"
  "getPublicKey flaky_env (generateSecretKey flaky_env 0) = Returns ''pub-generated''"
  by (simp_all add: demo_env_def flaky_env_def not_zero_key)

section \<open>connect\<close>

lemma load_or_generate_cases:
  "load_or_generate E c key w =
     (case fst (getItem (storage c) key (store w)) of
        Throws \<Rightarrow>
          draw_key E (w\<lparr>store := snd (getItem (storage c) key (store w)),
                         storage_calls := storage_calls w @ [GetItem key]\<rparr>)
      | Returns None \<Rightarrow>
          generate_and_store E c key
            (w\<lparr>store := snd (getItem (storage c) key (store w)),
               storage_calls := storage_calls w @ [GetItem key]\<rparr>)
      | Returns (Some s) \<Rightarrow>
          (if startsWith s ''nsec1'' \<and> (\<exists>d. decode E s = Returns (Nsec d))
           then (case decode E s of Returns (Nsec d) \<Rightarrow>
                   (d, w\<lparr>store := snd (getItem (storage c) key (store w)),
                          storage_calls := storage_calls w @ [GetItem key]\<rparr>))
           else generate_and_store E c key
                  (w\<lparr>store := snd (getItem (storage c) key (store w)),
                     storage_calls := storage_calls w @ [GetItem key]\<rparr>)))"
  by (auto simp add: load_or_generate_def decode_stored_def Let_def
      split: prod.splits outcome.splits option.splits decoded.splits sum.splits)

lemma generate_and_store_effect:
  "fst (generate_and_store E c key w) = generateSecretKey E (keys_drawn w)"
  "keys_drawn (snd (generate_and_store E c key w)) = Suc (keys_drawn w)"
  "pools_created (snd (generate_and_store E c key w)) = pools_created w"
  "storage_calls (snd (generate_and_store E c key w)) =
     storage_calls w @ [SetItem key (nsecEncode E (generateSecretKey E (keys_drawn w)))]"
  by (simp_all add: generate_and_store_def draw_key_def safeStorageSet_def
      split: prod.splits outcome.splits)

lemma draw_key_effect:
  "fst (draw_key E w) = generateSecretKey E (keys_drawn w)"
  "keys_drawn (snd (draw_key E w)) = Suc (keys_drawn w)"
  "pools_created (snd (draw_key E w)) = pools_created w"
  "storage_calls (snd (draw_key E w)) = storage_calls w"
  by (simp_all add: draw_key_def)

text \<open>
  What \<open>connect\<close> does on an unconnected client when \<open>getPublicKey\<close> returns for the
  key that was loaded or generated, whatever the storage backend does (\<open>getItem\<close> and
  \<open>setItem\<close> are arbitrary: they may throw or return any text): the call returns, the
  client is connected, with the key, the public key derived from it and a pool. A stored
  text that starts with \<open>nsec1\<close> and decodes to an nsec is reused, nothing is generated
  and nothing is written; an absent text, or one that does not start with \<open>nsec1\<close>,
  does not decode or decodes to another entity, gives a newly generated key and one
  attempt to store it; a throwing \<open>getItem\<close> gives a newly generated key and no write.
\<close>

lemma connect_with_derivable_key:
  assumes "\<not> isConnected c"
    and "getPublicKey E (fst (load_or_generate E c (storageKeyPrefix c @ ''-nsec'') w)) = Returns pk"
  shows "\<exists>c' w' k. connect E c w = (Returns (), c', w')
     \<and> isConnected c' \<and> secretKey c' = Some k \<and> getPublicKey E k = Returns (publicKey c')
     \<and> pool c' \<noteq> None
     \<and> (case fst (getItem (storage c) (storageKeyPrefix c @ ''-nsec'') (store w)) of
          Throws \<Rightarrow>
            k = generateSecretKey E (keys_drawn w)
            \<and> keys_drawn w' = Suc (keys_drawn w)
            \<and> storage_calls w' = storage_calls w @ [GetItem (storageKeyPrefix c @ ''-nsec'')]
        | Returns None \<Rightarrow>
            k = generateSecretKey E (keys_drawn w)
            \<and> keys_drawn w' = Suc (keys_drawn w)
            \<and> storage_calls w' = storage_calls w @
                 [GetItem (storageKeyPrefix c @ ''-nsec''),
                  SetItem (storageKeyPrefix c @ ''-nsec'') (nsecEncode E k)]
        | Returns (Some s) \<Rightarrow>
            (if startsWith s ''nsec1'' \<and> (\<exists>d. decode E s = Returns (Nsec d))
             then decode E s = Returns (Nsec k)
                  \<and> keys_drawn w' = keys_drawn w
                  \<and> storage_calls w' = storage_calls w @ [GetItem (storageKeyPrefix c @ ''-nsec'')]
             else k = generateSecretKey E (keys_drawn w)
                  \<and> keys_drawn w' = Suc (keys_drawn w)
                  \<and> storage_calls w' = storage_calls w @
                       [GetItem (storageKeyPrefix c @ ''-nsec''),
                        SetItem (storageKeyPrefix c @ ''-nsec'') (nsecEncode E k)]))"
proof -
  let ?key = "storageKeyPrefix c @ ''-nsec''"
  let ?lg = "load_or_generate E c ?key w"
  have nc: "\<not> u_isConnected c" using assms(1) by (simp add: isConnected_def)
  have con: "connect E c w =
     (Returns (),
      c\<lparr> secretKey := Some (fst ?lg), u_publicKey := pk,
         pool := Some (SimplePool (pools_created (snd ?lg))), u_isConnected := True \<rparr>,
      (snd ?lg)\<lparr>pools_created := Suc (pools_created (snd ?lg))\<rparr>)"
    using connect_fresh[OF nc, of E w] assms(2) by simp
  have cases: "(case fst (getItem (storage c) ?key (store w)) of
          Throws \<Rightarrow>
            fst ?lg = generateSecretKey E (keys_drawn w)
            \<and> keys_drawn (snd ?lg) = Suc (keys_drawn w)
            \<and> storage_calls (snd ?lg) = storage_calls w @ [GetItem ?key]
        | Returns None \<Rightarrow>
            fst ?lg = generateSecretKey E (keys_drawn w)
            \<and> keys_drawn (snd ?lg) = Suc (keys_drawn w)
            \<and> storage_calls (snd ?lg) = storage_calls w @
                 [GetItem ?key, SetItem ?key (nsecEncode E (fst ?lg))]
        | Returns (Some s) \<Rightarrow>
            (if startsWith s ''nsec1'' \<and> (\<exists>d. decode E s = Returns (Nsec d))
             then decode E s = Returns (Nsec (fst ?lg))
                  \<and> keys_drawn (snd ?lg) = keys_drawn w
                  \<and> storage_calls (snd ?lg) = storage_calls w @ [GetItem ?key]
             else fst ?lg = generateSecretKey E (keys_drawn w)
                  \<and> keys_drawn (snd ?lg) = Suc (keys_drawn w)
                  \<and> storage_calls (snd ?lg) = storage_calls w @
                       [GetItem ?key, SetItem ?key (nsecEncode E (fst ?lg))]))"
    unfolding load_or_generate_cases
    by (auto simp add: generate_and_store_effect draw_key_effect
        split: outcome.splits option.splits)
  show ?thesis
    unfolding con using cases assms(2)
    by (simp add: isConnected_def publicKey_def split: outcome.splits option.splits)
qed

text \<open>
  C3. The storage returns, under the key \<open>nostr-battle-nsec\<close>, the bech32 text of the
  secret key of 32 zero bytes. The text starts with \<open>nsec1\<close> and decodes to an nsec, so
  the inner \<open>try\<close> block assigns its bytes to the secret key and generates nothing;
  \<open>getPublicKey\<close>, called after the \<open>try\<close> blocks, refuses the key and throws, and
  \<open>connect\<close> throws with it: the client is left unconnected, without pool or public
  key, and with the refused bytes as its secret key. So stored data that is corrupt in
  this way does abort the connection.
\<close>

theorem connect_throws_on_refused_stored_key:
  "startsWith zero_nsec ''nsec1''
   \<and> decode demo_env zero_nsec = Returns (Nsec (replicate 32 0))
   \<and> getPublicKey demo_env (replicate 32 0) = Throws
   \<and> connect demo_env (new_client [] memory_backend demo_options)
         (demo_world [(''nostr-battle-nsec'', zero_nsec)]) =
       (Throws,
        (new_client [] memory_backend demo_options)\<lparr>secretKey := Some (replicate 32 0)\<rparr>,
        (demo_world [(''nostr-battle-nsec'', zero_nsec)])
          \<lparr>storage_calls := [GetItem ''nostr-battle-nsec'']\<rparr>)
   \<and> isConnected ((new_client [] memory_backend demo_options)
         \<lparr>secretKey := Some (replicate 32 0)\<rparr>) = False
   \<and> publicKey ((new_client [] memory_backend demo_options)
         \<lparr>secretKey := Some (replicate 32 0)\<rparr>) = []"
proof -
  have s: "startsWith zero_nsec ''nsec1''"
    by (simp add: zero_nsec_def startsWith_def)
  have z: "zero_nsec \<noteq> ''nsec1stored''" "zero_nsec \<noteq> ''nsec1profile''"
    by (simp_all add: zero_nsec_def)
  have d: "decode demo_env zero_nsec = Returns (Nsec (replicate 32 0))"
    using z by (simp add: demo_env_def)
  have g: "getPublicKey demo_env (replicate 32 0) = Throws"
    by (rule demo_env_keys)
  have l: "load_or_generate demo_env (new_client [] memory_backend demo_options)
        ''nostr-battle-nsec'' (demo_world [(''nostr-battle-nsec'', zero_nsec)]) =
      (replicate 32 0,
       (demo_world [(''nostr-battle-nsec'', zero_nsec)])
          \<lparr>storage_calls := [GetItem ''nostr-battle-nsec'']\<rparr>)"
    using s d
    by (simp add: load_or_generate_def decode_stored_def new_client_def memory_backend_def
        demo_options_def demo_world_def)
  have k: "storageKeyPrefix (new_client [] memory_backend demo_options) @ ''-nsec''
      = ''nostr-battle-nsec''"
    by (simp add: new_client_def demo_options_def)
  have n: "\<not> u_isConnected (new_client [] memory_backend demo_options)"
    by (simp add: new_client_def)
  have c: "connect demo_env (new_client [] memory_backend demo_options)
         (demo_world [(''nostr-battle-nsec'', zero_nsec)]) =
       (Throws,
        (new_client [] memory_backend demo_options)\<lparr>secretKey := Some (replicate 32 0)\<rparr>,
        (demo_world [(''nostr-battle-nsec'', zero_nsec)])
          \<lparr>storage_calls := [GetItem ''nostr-battle-nsec'']\<rparr>)"
    unfolding connect_fresh[OF n] k l using g by simp
  have i: "isConnected ((new_client [] memory_backend demo_options)
         \<lparr>secretKey := Some (replicate 32 0)\<rparr>) = False"
    "publicKey ((new_client [] memory_backend demo_options)
         \<lparr>secretKey := Some (replicate 32 0)\<rparr>) = []"
    by (simp_all add: isConnected_def publicKey_def new_client_def)
  show ?thesis using s d g c i by simp
qed

text \<open>
  C7. \<open>connect\<close> on a connected client returns at once: the client (secret key, public
  key, pool, connected flag and all) and the world (the storage and the record of
  storage calls included) are unchanged. Hence a second \<open>connect\<close> right after one that
  returned changes nothing.
\<close>

theorem connect_idempotent:
  "(isConnected c \<longrightarrow> connect E c w = (Returns (), c, w)) \<and>
   (\<forall>c' w'. connect E c w = (Returns (), c', w') \<longrightarrow> connect E c' w' = (Returns (), c', w'))"
proof -
  have a: "isConnected c \<longrightarrow> connect E c w = (Returns (), c, w)"
    by (simp add: isConnected_def connect_again)
  have b: "connect E c' w' = (Returns (), c', w')" if "connect E c w = (Returns (), c', w')" for c' w'
    using connect_returned_connected[OF that] by (simp add: connect_again)
  show ?thesis using a b by blast
qed

theorem connect_idempotent_witness:
  "\<exists>c w. client_after demo_env [] memory_backend demo_options (demo_world []) [Connect] = (c, w)
     \<and> isConnected c
     \<and> storage_calls w =
          [GetItem ''nostr-battle-nsec'', SetItem ''nostr-battle-nsec'' ''nsec1generated'']
     \<and> connect demo_env c w = (Returns (), c, w)"
proof -
  obtain c w where cw:
    "client_after demo_env [] memory_backend demo_options (demo_world []) [Connect] = (c, w)"
    by (cases "client_after demo_env [] memory_backend demo_options (demo_world []) [Connect]")
  note f = first_connect_fields[OF cw demo_env_first_key(1)]
  have calls: "storage_calls w =
          [GetItem ''nostr-battle-nsec'', SetItem ''nostr-battle-nsec'' ''nsec1generated'']"
    using f(9) by (simp add: demo_env_def)
  have "connect demo_env c w = (Returns (), c, w)"
    using connect_idempotent[of c demo_env w] f(1) by blast
  then show ?thesis using cw f(1) calls by blast
qed

section \<open>Histories without connect\<close>

lemma api_step_keeps_no_pool:
  assumes "call \<noteq> Connect" and "pool (fst cw) = None"
  shows "pool (fst (api_step E cw call)) = None"
proof -
  obtain c w where cw: "cw = (c, w)" by (cases cw)
  show ?thesis
    using assms unfolding cw by (cases call) (simp_all add: disconnect_def)
qed

lemma run_calls_keeps_no_pool:
  "Connect \<notin> set calls \<Longrightarrow> pool (fst cw) = None \<Longrightarrow> pool (fst (run_calls E cw calls)) = None"
proof (induction calls arbitrary: cw)
  case Nil
  then show ?case by (simp add: run_calls_Nil)
next
  case (Cons call calls)
  have "pool (fst (api_step E cw call)) = None"
    using Cons.prems by (intro api_step_keeps_no_pool) auto
  then show ?case
    using Cons.IH[of "api_step E cw call"] Cons.prems(1) by (simp add: run_calls_Cons)
qed

lemma api_step_keeps_publicKey:
  assumes "call \<noteq> Connect"
  shows "u_publicKey (fst (api_step E cw call)) = u_publicKey (fst cw)"
proof -
  obtain c w where cw: "cw = (c, w)" by (cases cw)
  show ?thesis
    using assms unfolding cw by (cases call) (simp_all add: disconnect_def split: option.splits)
qed

lemma run_calls_keeps_publicKey:
  "Connect \<notin> set calls \<Longrightarrow> u_publicKey (fst (run_calls E cw calls)) = u_publicKey (fst cw)"
proof (induction calls arbitrary: cw)
  case Nil
  then show ?case by (simp add: run_calls_Nil)
next
  case (Cons call calls)
  have "call \<noteq> Connect" "Connect \<notin> set calls" using Cons.prems by auto
  then show ?case
    using api_step_keeps_publicKey[of call E cw] Cons.IH[of "api_step E cw call"]
    by (simp add: run_calls_Cons)
qed

lemma connect_sets_key:
  assumes "client_ok E c"
  shows "secretKey (fst (snd (connect E c w))) \<noteq> None"
proof (cases "u_isConnected c")
  case True
  then show ?thesis using assms by (auto simp add: connect_again client_ok_def split: option.splits)
next
  case False
  then show ?thesis by (simp add: connect_fresh split: outcome.splits)
qed

lemma api_step_keeps_key:
  assumes "client_ok E (fst cw)" and "secretKey (fst cw) \<noteq> None"
  shows "secretKey (fst (api_step E cw call)) \<noteq> None"
proof -
  obtain c w where cw: "cw = (c, w)" by (cases cw)
  have "secretKey (fst (snd (connect E c w))) \<noteq> None"
    using assms(1) unfolding cw by (simp add: connect_sets_key)
  then show ?thesis
    using assms(2) unfolding cw by (cases call) (simp_all add: disconnect_def split: option.splits)
qed

lemma run_calls_keeps_key:
  "client_ok E (fst cw) \<Longrightarrow> secretKey (fst cw) \<noteq> None \<Longrightarrow>
   secretKey (fst (run_calls E cw calls)) \<noteq> None"
proof (induction calls arbitrary: cw)
  case Nil
  then show ?case by (simp add: run_calls_Nil)
next
  case (Cons call calls)
  have "client_ok E (fst (api_step E cw call))"
    using Cons.prems(1) by (rule client_ok_step)
  moreover have "secretKey (fst (api_step E cw call)) \<noteq> None"
    using Cons.prems by (rule api_step_keeps_key)
  ultimately show ?case using Cons.IH by (simp add: run_calls_Cons)
qed

lemma key_after_connect:
  assumes "client_ok E (fst cw)" and "Connect \<in> set calls"
  shows "secretKey (fst (run_calls E cw calls)) \<noteq> None"
  using assms
proof (induction calls arbitrary: cw)
  case Nil
  then show ?case by simp
next
  case (Cons call calls)
  obtain c w where cw: "cw = (c, w)" by (cases cw)
  have ok: "client_ok E (fst (api_step E cw call))"
    using Cons.prems(1) by (rule client_ok_step)
  show ?case
  proof (cases "Connect \<in> set calls")
    case True
    then show ?thesis using Cons.IH[OF ok] by (simp add: run_calls_Cons)
  next
    case False
    then have call: "call = Connect" using Cons.prems(2) by simp
    have "secretKey (fst (api_step E cw call)) \<noteq> None"
      using Cons.prems(1) unfolding cw call by (simp add: connect_sets_key)
    then show ?thesis
      using run_calls_keeps_key[OF ok] by (simp add: run_calls_Cons)
  qed
qed

text \<open>In an environment whose \<open>getPublicKey\<close> never throws, the public key follows the secret key.\<close>

lemma key_ok_connect:
  assumes "\<And>k. getPublicKey E k \<noteq> Throws" and "key_ok E c" and "client_ok E c"
  shows "key_ok E (fst (snd (connect E c w)))"
proof (cases "u_isConnected c")
  case True
  then show ?thesis using assms(2) by (simp add: connect_again)
next
  case False
  let ?k = "fst (load_or_generate E c (storageKeyPrefix c @ ''-nsec'') w)"
  obtain pk where "getPublicKey E ?k = Returns pk"
    using assms(1)[of ?k] by (cases "getPublicKey E ?k") auto
  then show ?thesis
    using False by (simp add: connect_fresh key_ok_def)
qed

lemma key_ok_step:
  assumes "\<And>k. getPublicKey E k \<noteq> Throws" and "key_ok E (fst cw)" and "client_ok E (fst cw)"
  shows "key_ok E (fst (api_step E cw call))"
proof -
  obtain c w where cw: "cw = (c, w)" by (cases cw)
  have d: "key_ok E (fst (disconnect c w))"
    using assms(2) unfolding cw by (simp add: disconnect_def key_ok_def split: option.splits)
  have k: "key_ok E (fst (snd (connect E c w)))"
    using assms unfolding cw by (simp add: key_ok_connect)
  show ?thesis
    using assms(2) d k unfolding cw by (cases call) simp_all
qed

lemma key_ok_run:
  assumes "\<And>k. getPublicKey E k \<noteq> Throws"
  shows "key_ok E (fst cw) \<Longrightarrow> client_ok E (fst cw) \<Longrightarrow> key_ok E (fst (run_calls E cw calls))"
proof (induction calls arbitrary: cw)
  case Nil
  then show ?case by (simp add: run_calls_Nil)
next
  case (Cons call calls)
  have "key_ok E (fst (api_step E cw call))"
    using assms Cons.prems by (rule key_ok_step)
  moreover have "client_ok E (fst (api_step E cw call))"
    using Cons.prems(2) by (rule client_ok_step)
  ultimately show ?case using Cons.IH by (simp add: run_calls_Cons)
qed

text \<open>
  C10. For the client after any history of calls on a newly constructed client, given
  that \<open>getPublicKey\<close> never returns the empty string: if the history has no
  \<open>connect\<close>, the accessor \<open>publicKey\<close> returns the empty string; a \<open>connect\<close> that
  returns leaves a secret key and makes \<open>publicKey\<close> return the key that
  \<open>getPublicKey\<close> derives from it, which is not empty, and the same holds of every
  connected client; where \<open>getPublicKey\<close> never throws it holds after every history
  with a \<open>connect\<close>; and \<open>disconnect\<close> leaves both the secret key and what
  \<open>publicKey\<close> returns unchanged.
\<close>

theorem publicKey_accessor:
  assumes "\<forall>k s. getPublicKey E k = Returns s \<longrightarrow> s \<noteq> []"
    and "client_after E dr ls opts w0 calls = (c, w)"
  shows "(Connect \<notin> set calls \<longrightarrow> publicKey c = [])
     \<and> (\<forall>c' w'. connect E c w = (Returns (), c', w') \<longrightarrow>
          (\<exists>k. secretKey c' = Some k \<and> getPublicKey E k = Returns (publicKey c')
               \<and> publicKey c' \<noteq> []))
     \<and> (isConnected c \<longrightarrow>
          (\<exists>k. secretKey c = Some k \<and> getPublicKey E k = Returns (publicKey c)
               \<and> publicKey c \<noteq> []))
     \<and> ((\<forall>k. getPublicKey E k \<noteq> Throws) \<and> Connect \<in> set calls \<longrightarrow>
          (\<exists>k. secretKey c = Some k \<and> getPublicKey E k = Returns (publicKey c)
               \<and> publicKey c \<noteq> []))
     \<and> publicKey (fst (disconnect c w)) = publicKey c
     \<and> secretKey (fst (disconnect c w)) = secretKey c"
proof -
  have c: "c = fst (run_calls E (new_client dr ls opts, w0) calls)"
    using assms(2) by (simp add: client_after_def)
  have ok: "client_ok E c" using assms(2) by (rule client_after_ok)
  have derived: "\<exists>k. secretKey x = Some k \<and> getPublicKey E k = Returns (publicKey x)
               \<and> publicKey x \<noteq> []" if okx: "client_ok E x" and conx: "u_isConnected x"
    for x :: "'a client"
  proof -
    obtain k where "secretKey x = Some k" "getPublicKey E k = Returns (u_publicKey x)"
      using connected_has_pool_and_key[OF okx conx] by blast
    then show ?thesis using assms(1) by (auto simp add: publicKey_def)
  qed
  have a: "publicKey c = []" if "Connect \<notin> set calls"
    using run_calls_keeps_publicKey[OF that, of E "(new_client dr ls opts, w0)"]
    unfolding c by (simp add: publicKey_def new_client_def)
  have b: "\<exists>k. secretKey c' = Some k \<and> getPublicKey E k = Returns (publicKey c')
               \<and> publicKey c' \<noteq> []"
    if "connect E c w = (Returns (), c', w')" for c' w'
  proof -
    have "client_ok E c'" using client_ok_connect[OF ok, of w] that by simp
    moreover have "u_isConnected c'" using that by (rule connect_returned_connected)
    ultimately show ?thesis by (rule derived)
  qed
  have b2: "\<exists>k. secretKey c = Some k \<and> getPublicKey E k = Returns (publicKey c)
               \<and> publicKey c \<noteq> []" if "isConnected c"
    using derived[OF ok] that by (simp add: isConnected_def)
  have b3: "\<exists>k. secretKey c = Some k \<and> getPublicKey E k = Returns (publicKey c)
               \<and> publicKey c \<noteq> []"
    if "\<forall>k. getPublicKey E k \<noteq> Throws" "Connect \<in> set calls"
  proof -
    have "secretKey c \<noteq> None"
      unfolding c by (rule key_after_connect) (simp_all add: client_ok_new that(2))
    then obtain k where k: "secretKey c = Some k" by blast
    have "key_ok E (fst (new_client dr ls opts, w0))"
      by (simp add: key_ok_def new_client_def)
    moreover have "client_ok E (fst (new_client dr ls opts, w0))"
      by (simp add: client_ok_new)
    ultimately have "key_ok E c"
      unfolding c using that(1) key_ok_run[of E "(new_client dr ls opts, w0)" calls] by blast
    then have "getPublicKey E k = Returns (publicKey c)"
      using k by (simp add: key_ok_def publicKey_def)
    then show ?thesis using k assms(1) by auto
  qed
  have d: "publicKey (fst (disconnect c w)) = publicKey c"
    "secretKey (fst (disconnect c w)) = secretKey c"
    by (simp_all add: disconnect_def publicKey_def split: option.splits)
  show ?thesis using a b b2 b3 d by blast
qed

theorem publicKey_accessor_witness:
  "(\<forall>k s. getPublicKey demo_env k = Returns s \<longrightarrow> s \<noteq> []) = True
   \<and> publicKey (fst (client_after demo_env [] memory_backend demo_options (demo_world [])
        [Publish demo_template, Disconnect])) = []
   \<and> publicKey (fst (client_after demo_env [] memory_backend demo_options (demo_world [])
        [Connect])) = ''pub-generated''
   \<and> secretKey (fst (client_after demo_env [] memory_backend demo_options (demo_world [])
        [Connect])) = Some [7, 0]
   \<and> publicKey (fst (client_after demo_env [] memory_backend demo_options (demo_world [])
        [Connect, Disconnect])) = ''pub-generated''
   \<and> (\<forall>k. getPublicKey lenient_env k \<noteq> Throws) = True
   \<and> Connect \<in> set [Connect, Disconnect]
   \<and> publicKey (fst (client_after lenient_env [] memory_backend demo_options (demo_world [])
        [Connect, Disconnect])) = ''pub-any''"
proof -
  have g: "\<forall>k s. getPublicKey demo_env k = Returns s \<longrightarrow> s \<noteq> []"
    by (auto simp add: demo_env_def split: if_splits)
  have gl: "\<forall>k s. getPublicKey lenient_env k = Returns s \<longrightarrow> s \<noteq> []"
    by (auto simp add: lenient_env_def)
  have nt: "getPublicKey lenient_env k \<noteq> Throws" for k
    by (simp add: lenient_env_def)
  obtain c1 w1 where 1: "client_after demo_env [] memory_backend demo_options (demo_world [])
        [Publish demo_template, Disconnect] = (c1, w1)"
    by (cases "client_after demo_env [] memory_backend demo_options (demo_world [])
        [Publish demo_template, Disconnect]")
  have a: "publicKey c1 = []"
    using publicKey_accessor[of demo_env, OF g 1] by simp
  obtain c2 w2 where 2: "client_after demo_env [] memory_backend demo_options (demo_world [])
        [Connect] = (c2, w2)"
    by (cases "client_after demo_env [] memory_backend demo_options (demo_world []) [Connect]")
  note f = first_connect_fields[OF 2 demo_env_first_key(1)]
  have k: "secretKey c2 = Some [7, 0]"
    using f(2) by (simp add: demo_env_first_key)
  have "getPublicKey demo_env [7, 0] = Returns (publicKey c2)"
    using publicKey_accessor[of demo_env, OF g 2] f(1) k by auto
  then have b: "publicKey c2 = ''pub-generated''"
    by (simp add: demo_env_keys)
  have 3: "client_after demo_env [] memory_backend demo_options (demo_world [])
        [Connect, Disconnect] = disconnect c2 w2"
    using 2 client_after_snoc[of demo_env "[]" memory_backend demo_options "demo_world []"
        "[Connect]" Disconnect] by simp
  have d: "publicKey (fst (disconnect c2 w2)) = ''pub-generated''"
    using publicKey_accessor[of demo_env, OF g 2] b by simp
  obtain c4 w4 where 4: "client_after lenient_env [] memory_backend demo_options (demo_world [])
        [Connect, Disconnect] = (c4, w4)"
    by (cases "client_after lenient_env [] memory_backend demo_options (demo_world [])
        [Connect, Disconnect]")
  have "\<exists>k. secretKey c4 = Some k \<and> getPublicKey lenient_env k = Returns (publicKey c4)"
    using publicKey_accessor[of lenient_env, OF gl 4] nt by auto
  then have e: "publicKey c4 = ''pub-any''"
    by (auto simp add: lenient_env_def)
  show ?thesis
    using g nt a b k d e unfolding 1 2 3 4 by auto
qed

section \<open>publish and fetch without a pool\<close>

lemma publish_no_pool: "pool c = None \<Longrightarrow> publish E c t w = (Rejected not_connected, w)"
  by (simp add: publish_def)

lemma fetch_no_pool: "pool c = None \<Longrightarrow> fetch c f timeoutMs w = (Inl not_connected, w)"
  by (simp add: fetch_def)

lemma api_step_no_pool_quiet:
  assumes "call \<noteq> Connect" and "pool (fst cw) = None"
  shows "sign_calls (snd (api_step E cw call)) = sign_calls (snd cw)
       \<and> sends (snd (api_step E cw call)) = sends (snd cw)"
proof -
  obtain c w where cw: "cw = (c, w)" by (cases cw)
  show ?thesis
    using assms unfolding cw
    by (cases call) (simp_all add: disconnect_def publish_no_pool fetch_no_pool subscribe_def)
qed

lemma run_calls_no_pool_quiet:
  "Connect \<notin> set calls \<Longrightarrow> pool (fst cw) = None \<Longrightarrow>
   sign_calls (snd (run_calls E cw calls)) = sign_calls (snd cw)
   \<and> sends (snd (run_calls E cw calls)) = sends (snd cw)"
proof (induction calls arbitrary: cw)
  case Nil
  then show ?case by (simp add: run_calls_Nil)
next
  case (Cons call calls)
  have 1: "call \<noteq> Connect" "Connect \<notin> set calls" using Cons.prems(1) by auto
  have 2: "pool (fst (api_step E cw call)) = None"
    using 1(1) Cons.prems(2) by (rule api_step_keeps_no_pool)
  show ?case
    using Cons.IH[OF 1(2) 2] api_step_no_pool_quiet[OF 1(1) Cons.prems(2), of E]
    by (simp add: run_calls_Cons)
qed

text \<open>
  C6. On a client whose history has no \<open>connect\<close>, \<open>publish\<close> of any template is
  rejected with the error \<open>NostrClient not connected. Call connect() first.\<close>, a
  message that begins with \<open>NostrClient not connected\<close>, and leaves the world as it
  was: nothing is signed and nothing is sent, neither by this call nor by any call before
  it.
\<close>

theorem publish_before_connect:
  assumes "Connect \<notin> set calls"
    and "client_after E dr ls opts w0 calls = (c, w)"
  shows "publish E c t w =
           (Rejected (Error ''NostrClient not connected. Call connect() first.''), w)
     \<and> startsWith ''NostrClient not connected. Call connect() first.'' ''NostrClient not connected''
     \<and> sign_calls (snd (publish E c t w)) = sign_calls w0
     \<and> sends (snd (publish E c t w)) = sends w0"
proof -
  have cw: "run_calls E (new_client dr ls opts, w0) calls = (c, w)"
    using assms(2) by (simp add: client_after_def)
  have np: "pool (fst (new_client dr ls opts, w0)) = None"
    by (simp add: new_client_def)
  have p: "pool c = None"
    using run_calls_keeps_no_pool[OF assms(1) np, of E] cw by simp
  have q: "sign_calls w = sign_calls w0 \<and> sends w = sends w0"
    using run_calls_no_pool_quiet[OF assms(1) np, of E] cw by simp
  show ?thesis
    using q by (simp add: publish_no_pool[OF p] not_connected_def startsWith_def)
qed

theorem publish_before_connect_witness:
  "Connect \<notin> set [Subscribe [], Publish demo_template]
   \<and> (\<exists>c w. client_after demo_env [] memory_backend demo_options (demo_world [])
               [Subscribe [], Publish demo_template] = (c, w)
        \<and> publish demo_env c demo_template w =
            (Rejected (Error ''NostrClient not connected. Call connect() first.''), w)
        \<and> sign_calls (snd (publish demo_env c demo_template w)) = []
        \<and> sends (snd (publish demo_env c demo_template w)) = [])"
proof -
  have n: "Connect \<notin> set [Subscribe [], Publish demo_template]" by simp
  obtain c w where cw: "client_after demo_env [] memory_backend demo_options (demo_world [])
               [Subscribe [], Publish demo_template] = (c, w)"
    by (cases "client_after demo_env [] memory_backend demo_options (demo_world [])
               [Subscribe [], Publish demo_template]")
  have r: "publish demo_env c demo_template w =
            (Rejected (Error ''NostrClient not connected. Call connect() first.''), w)"
    and s: "sign_calls (snd (publish demo_env c demo_template w)) = sign_calls (demo_world [])"
    and t: "sends (snd (publish demo_env c demo_template w)) = sends (demo_world [])"
    using publish_before_connect[OF n cw, of demo_template] by blast+
  have "sign_calls (demo_world []) = []" "sends (demo_world []) = []"
    by (simp_all add: demo_world_def)
  then show ?thesis
    using n cw r s t by auto
qed

lemma api_step_keeps_unconnected:
  assumes "call \<noteq> Connect" and "\<not> u_isConnected (fst cw)"
  shows "\<not> u_isConnected (fst (api_step E cw call))"
proof -
  obtain c w where cw: "cw = (c, w)" by (cases cw)
  show ?thesis
    using assms unfolding cw by (cases call) (simp_all add: disconnect_def split: option.splits)
qed

lemma run_calls_keeps_unconnected:
  "Connect \<notin> set calls \<Longrightarrow> \<not> u_isConnected (fst cw) \<Longrightarrow>
   \<not> u_isConnected (fst (run_calls E cw calls))"
proof (induction calls arbitrary: cw)
  case Nil
  then show ?case by (simp add: run_calls_Nil)
next
  case (Cons call calls)
  have 1: "call \<noteq> Connect" "Connect \<notin> set calls" using Cons.prems(1) by auto
  have 2: "\<not> u_isConnected (fst (api_step E cw call))"
    using 1(1) Cons.prems(2) by (rule api_step_keeps_unconnected)
  show ?case
    using Cons.IH[OF 1(2) 2] by (simp add: run_calls_Cons)
qed

text \<open>
  C9. After \<open>disconnect\<close> on any client, and after any further calls that are not
  \<open>connect\<close>, \<open>publish\<close> is rejected with the not-connected error and \<open>fetch\<close> is
  rejected with the same error, both leaving the world as it was; once \<open>connect\<close> is
  called and returns, \<open>fetch\<close> returns a pending promise again.
\<close>

theorem rejected_after_disconnect:
  assumes "Connect \<notin> set calls"
    and "run_calls E (disconnect c0 w0) calls = (c, w)"
  shows "publish E c t w = (Rejected not_connected, w)
     \<and> fetch c f timeoutMs w = (Inl not_connected, w)
     \<and> not_connected = Error ''NostrClient not connected. Call connect() first.''
     \<and> (\<forall>c' w'. connect E c w = (Returns (), c', w') \<longrightarrow>
          (\<exists>st w''. fetch c' f timeoutMs w' = (Inr st, w'')))"
proof -
  have np: "pool (fst (disconnect c0 w0)) = None"
    by (simp add: disconnect_def split: option.splits)
  have p: "pool c = None"
    using run_calls_keeps_no_pool[OF assms(1) np, of E] assms(2) by simp
  have nd: "\<not> u_isConnected (fst (disconnect c0 w0))"
    by (simp add: disconnect_def split: option.splits)
  have nc: "\<not> u_isConnected c"
    using run_calls_keeps_unconnected[OF assms(1) nd, of E] assms(2) by simp
  have again: "\<exists>st w''. fetch c' f timeoutMs w' = (Inr st, w'')"
    if "connect E c w = (Returns (), c', w')" for c' w'
  proof -
    have "pool c' \<noteq> None"
      using that nc by (auto simp add: connect_fresh split: outcome.splits)
    then obtain p' where "pool c' = Some p'" by blast
    then show ?thesis by (simp add: fetch_def)
  qed
  show ?thesis
    using again by (simp add: publish_no_pool[OF p] fetch_no_pool[OF p] not_connected_def)
qed

theorem rejected_after_disconnect_witness:
  "Connect \<notin> set [Subscribe [], Disconnect]
   \<and> (\<exists>c0 w0 c w.
        client_after lenient_env [] memory_backend demo_options (demo_world []) [Connect] = (c0, w0)
        \<and> isConnected c0
        \<and> run_calls lenient_env (disconnect c0 w0) [Subscribe [], Disconnect] = (c, w)
        \<and> publish lenient_env c demo_template w =
             (Rejected (Error ''NostrClient not connected. Call connect() first.''), w)
        \<and> fetch c (Filter [25000] []) None w =
             (Inl (Error ''NostrClient not connected. Call connect() first.''), w)
        \<and> (\<exists>c' w' st w''. connect lenient_env c w = (Returns (), c', w')
              \<and> fetch c' (Filter [25000] []) None w' = (Inr st, w'')))"
proof -
  have n: "Connect \<notin> set [Subscribe [], Disconnect]" by simp
  have g: "getPublicKey lenient_env k = Returns ''pub-any''" for k
    by (simp add: lenient_env_def)
  obtain c0 w0 where 0:
    "client_after lenient_env [] memory_backend demo_options (demo_world []) [Connect] = (c0, w0)"
    by (cases "client_after lenient_env [] memory_backend demo_options (demo_world []) [Connect]")
  have conn: "isConnected c0"
    using first_connect_fields(1)[OF 0 g] .
  obtain c w where cw: "run_calls lenient_env (disconnect c0 w0) [Subscribe [], Disconnect] = (c, w)"
    by (cases "run_calls lenient_env (disconnect c0 w0) [Subscribe [], Disconnect]")
  have r: "publish lenient_env c demo_template w = (Rejected not_connected, w)"
    and f: "fetch c (Filter [25000] []) None w = (Inl not_connected, w)"
    and m: "not_connected = Error ''NostrClient not connected. Call connect() first.''"
    and a: "\<And>c' w'. connect lenient_env c w = (Returns (), c', w') \<Longrightarrow>
          (\<exists>st w''. fetch c' (Filter [25000] []) None w' = (Inr st, w''))"
    using rejected_after_disconnect[OF n cw, of demo_template "Filter [25000] []" None] by blast+
  have nc: "\<not> u_isConnected c"
    using run_calls_keeps_unconnected[OF n, of "disconnect c0 w0" lenient_env] cw
    by (simp add: disconnect_def split: option.splits)
  obtain c' w' where c': "connect lenient_env c w = (Returns (), c', w')"
    using nc by (simp add: connect_fresh g)
  obtain st w'' where fe: "fetch c' (Filter [25000] []) None w' = (Inr st, w'')"
    using a[OF c'] by blast
  have inner: "\<exists>c' w' st w''. connect lenient_env c w = (Returns (), c', w')
              \<and> fetch c' (Filter [25000] []) None w' = (Inr st, w'')"
    by (rule exI[of _ c'], rule exI[of _ w'], rule exI[of _ st], rule exI[of _ w''])
      (rule conjI[OF c' fe])
  have r': "publish lenient_env c demo_template w =
             (Rejected (Error ''NostrClient not connected. Call connect() first.''), w)"
    using r unfolding m .
  have f': "fetch c (Filter [25000] []) None w =
             (Inl (Error ''NostrClient not connected. Call connect() first.''), w)"
    using f unfolding m .
  show ?thesis
    by (rule conjI[OF n], rule exI[of _ c0], rule exI[of _ w0], rule exI[of _ c], rule exI[of _ w])
      (intro conjI 0 conn cw r' f' inner)
qed

section \<open>publish with retry\<close>

lemma promise_any_accept:
  "Accepts \<in> set rs \<Longrightarrow> promise_any rs = Fulfilled ()"
  by (simp add: promise_any_def list_ex_iff)

lemma promise_any_all_reject:
  "list_all (\<lambda>r. r = Rejects) rs \<Longrightarrow> promise_any rs = Rejected (Error ''All promises were rejected'')"
  by (auto simp add: promise_any_def list_ex_iff list_all_iff)

lemma promise_any_rejected_iff:
  "(\<exists>e. promise_any rs = Rejected e) \<longleftrightarrow> list_all (\<lambda>r. r = Rejects) rs"
  by (auto simp add: promise_any_def list_ex_iff list_all_iff)

lemma accept_not_all_reject:
  "Accepts \<in> set rs \<Longrightarrow> \<not> list_all (\<lambda>r. r = Rejects) rs"
  by (auto simp add: list_all_iff)

lemma upt_shift: "map f [0..<Suc j] = f 0 # map (\<lambda>i. f (Suc i)) [0..<j]"
proof -
  have "[0..<Suc j] = 0 # map Suc [0..<j]"
    by (simp add: upt_conv_Cons map_Suc_upt del: upt_Suc)
  then show ?thesis by (simp add: comp_def del: upt_Suc)
qed

text \<open>
  The loop, when the attempts before the \<open>j\<close>-th are rejected by every relay and the
  \<open>j\<close>-th is not: it ends with the promise of the \<open>j\<close>-th attempt, after \<open>j + 1\<close> sends
  and \<open>j\<close> sleeps.
\<close>

lemma retry_loop_until:
  assumes "j < n"
    and "\<forall>i<j. list_all (\<lambda>r. r = Rejects)
           (map (\<lambda>url. relay_reply E (length (sends w) + i) url ev) urls)"
    and "\<not> list_all (\<lambda>r. r = Rejects)
           (map (\<lambda>url. relay_reply E (length (sends w) + j) url ev) urls)"
  shows "fst (retry_loop n factor d cap lasterr (publish_attempt E p urls ev) sleep_ms w) =
           promise_any (map (\<lambda>url. relay_reply E (length (sends w) + j) url ev) urls)
       \<and> sends (snd (retry_loop n factor d cap lasterr (publish_attempt E p urls ev) sleep_ms w)) =
           sends w @ replicate (Suc j) (p, urls, ev)
       \<and> slept (snd (retry_loop n factor d cap lasterr (publish_attempt E p urls ev) sleep_ms w)) =
           slept w @ map (\<lambda>i. min (d * factor ^ i) cap) [0..<j]"
  using assms
proof (induction j arbitrary: n d lasterr w)
  case 0
  then obtain n' where n: "n = Suc n'" by (cases n) auto
  let ?rs = "map (\<lambda>url. relay_reply E (length (sends w)) url ev) urls"
  have "\<not> (\<exists>e. promise_any ?rs = Rejected e)"
    using "0.prems"(3) promise_any_rejected_iff[of ?rs] by simp
  then have "promise_any ?rs = Fulfilled () \<or> promise_any ?rs = Pending"
    by (cases "promise_any ?rs") auto
  then show ?case
    unfolding n by (auto simp add: publish_attempt_def)
next
  case (Suc j)
  then obtain n' where n: "n = Suc n'" and n': "j < n'" "n' \<noteq> 0" by (cases n) auto
  let ?rs = "map (\<lambda>url. relay_reply E (length (sends w)) url ev) urls"
  let ?w1 = "w\<lparr>sends := sends w @ [(p, urls, ev)]\<rparr>"
  let ?w2 = "sleep_ms (min d cap) ?w1"
  have "list_all (\<lambda>r. r = Rejects) ?rs" using Suc.prems(2) by force
  then have rej: "promise_any ?rs = Rejected (Error ''All promises were rejected'')"
    by (rule promise_any_all_reject)
  have step: "retry_loop n factor d cap lasterr (publish_attempt E p urls ev) sleep_ms w =
      retry_loop n' factor (d * factor) cap (Error ''All promises were rejected'')
        (publish_attempt E p urls ev) sleep_ms ?w2"
    unfolding n using n'(2) rej by (simp add: publish_attempt_def)
  have len: "length (sends ?w2) = Suc (length (sends w))"
    by (simp add: sleep_ms_def)
  have a: "\<forall>i<j. list_all (\<lambda>r. r = Rejects)
           (map (\<lambda>url. relay_reply E (length (sends ?w2) + i) url ev) urls)"
    using Suc.prems(2) unfolding len by auto
  have b: "\<not> list_all (\<lambda>r. r = Rejects)
           (map (\<lambda>url. relay_reply E (length (sends ?w2) + j) url ev) urls)"
    using Suc.prems(3) unfolding len by simp
  have w2: "sends ?w2 = sends w @ [(p, urls, ev)]" "slept ?w2 = slept w @ [min d cap]"
    by (simp_all add: sleep_ms_def)
  have pw: "min (d * factor * factor ^ i) cap = min (d * factor ^ Suc i) cap" for i
    by (simp add: mult.assoc)
  show ?case
    unfolding step using Suc.IH[OF n'(1) a b, of "d * factor" "Error ''All promises were rejected''"]
    unfolding len w2 upt_shift[of "\<lambda>i. min (d * factor ^ i) cap" j] pw
    by (simp add: replicate_app_Cons_same)
qed

text \<open>The loop when every attempt is rejected by every relay.\<close>

lemma retry_loop_exhausted:
  assumes "0 < n"
    and "\<forall>i<n. list_all (\<lambda>r. r = Rejects)
           (map (\<lambda>url. relay_reply E (length (sends w) + i) url ev) urls)"
  shows "fst (retry_loop n factor d cap lasterr (publish_attempt E p urls ev) sleep_ms w) =
           Rejected (Error ''All promises were rejected'')
       \<and> sends (snd (retry_loop n factor d cap lasterr (publish_attempt E p urls ev) sleep_ms w)) =
           sends w @ replicate n (p, urls, ev)
       \<and> slept (snd (retry_loop n factor d cap lasterr (publish_attempt E p urls ev) sleep_ms w)) =
           slept w @ map (\<lambda>i. min (d * factor ^ i) cap) [0..<n - 1]"
  using assms
proof (induction n arbitrary: d lasterr w)
  case 0
  then show ?case by simp
next
  case (Suc n)
  let ?rs = "map (\<lambda>url. relay_reply E (length (sends w)) url ev) urls"
  let ?w1 = "w\<lparr>sends := sends w @ [(p, urls, ev)]\<rparr>"
  let ?w2 = "sleep_ms (min d cap) ?w1"
  have "list_all (\<lambda>r. r = Rejects) ?rs" using Suc.prems(2) by force
  then have rej: "promise_any ?rs = Rejected (Error ''All promises were rejected'')"
    by (rule promise_any_all_reject)
  show ?case
  proof (cases "n = 0")
    case True
    then show ?thesis using rej by (simp add: publish_attempt_def)
  next
    case False
    then obtain m where m: "n = Suc m" by (cases n) auto
    have step: "retry_loop (Suc n) factor d cap lasterr (publish_attempt E p urls ev) sleep_ms w =
      retry_loop n factor (d * factor) cap (Error ''All promises were rejected'')
        (publish_attempt E p urls ev) sleep_ms ?w2"
      using False rej by (simp add: publish_attempt_def)
    have len: "length (sends ?w2) = Suc (length (sends w))"
      by (simp add: sleep_ms_def)
    have a: "\<forall>i<n. list_all (\<lambda>r. r = Rejects)
           (map (\<lambda>url. relay_reply E (length (sends ?w2) + i) url ev) urls)"
      using Suc.prems(2) unfolding len by auto
    have w2: "sends ?w2 = sends w @ [(p, urls, ev)]" "slept ?w2 = slept w @ [min d cap]"
      by (simp_all add: sleep_ms_def)
    have pw: "min (d * factor * factor ^ i) cap = min (d * factor ^ Suc i) cap" for i
      by (simp add: mult.assoc)
    have n0: "0 < n" using False by simp
    have ih: "fst (retry_loop n factor (d * factor) cap (Error ''All promises were rejected'')
                 (publish_attempt E p urls ev) sleep_ms ?w2) =
               Rejected (Error ''All promises were rejected'')"
      "sends (snd (retry_loop n factor (d * factor) cap (Error ''All promises were rejected'')
                 (publish_attempt E p urls ev) sleep_ms ?w2)) =
               sends ?w2 @ replicate n (p, urls, ev)"
      "slept (snd (retry_loop n factor (d * factor) cap (Error ''All promises were rejected'')
                 (publish_attempt E p urls ev) sleep_ms ?w2)) =
               slept ?w2 @ map (\<lambda>i. min (d * factor * factor ^ i) cap) [0..<n - 1]"
      using Suc.IH[OF n0 a, of "d * factor" "Error ''All promises were rejected''"] by blast+
    have lists: "min d cap # map (\<lambda>i. min (d * factor * factor ^ i) cap) [0..<n - 1] =
        map (\<lambda>i. min (d * factor ^ i) cap) [0..<Suc n - 1]"
      unfolding m using upt_shift[of "\<lambda>i. min (d * factor ^ i) cap" m]
      by (simp add: mult.assoc del: upt_Suc)
    have "sends ?w2 @ replicate n (p, urls, ev) = sends w @ replicate (Suc n) (p, urls, ev)"
      unfolding w2 by (simp add: replicate_app_Cons_same)
    moreover have "slept ?w2 @ map (\<lambda>i. min (d * factor * factor ^ i) cap) [0..<n - 1] =
        slept w @ map (\<lambda>i. min (d * factor ^ i) cap) [0..<Suc n - 1]"
      unfolding w2 using lists by simp
    ultimately show ?thesis
      unfolding step ih by simp
  qed
qed

text \<open>A sleep is only ever made after an attempt that every relay rejected.\<close>

lemma retry_loop_sleep_needs_rejection:
  assumes "slept (snd (retry_loop n factor d cap lasterr (publish_attempt E p urls ev) sleep_ms w))
             \<noteq> slept w"
  shows "list_all (\<lambda>r. r = Rejects) (map (\<lambda>url. relay_reply E (length (sends w)) url ev) urls)"
proof (cases n)
  case 0
  then show ?thesis using assms by simp
next
  case (Suc m)
  let ?rs = "map (\<lambda>url. relay_reply E (length (sends w)) url ev) urls"
  have "\<exists>e. promise_any ?rs = Rejected e"
    using assms unfolding Suc
    by (cases "promise_any ?rs") (simp_all add: publish_attempt_def)
  then show ?thesis by (simp add: promise_any_rejected_iff)
qed

lemma publish_connected:
  assumes "pool c = Some p" and "secretKey c = Some k"
  shows "publish E c t w =
     retry_loop (maxAttempts (publishRetry c)) (backoff_factor E) (initialDelay (publishRetry c))
       (maxDelay (publishRetry c)) (Error ''retry: no attempt made'')
       (publish_attempt E p (relays c)
          (finalizeEvent E \<lparr> kind = kind t, tags = tags t, content = content t,
                              created_at = now_ms w div 1000 \<rparr> k))
       sleep_ms
       (w\<lparr>sign_calls := sign_calls w @
            [(\<lparr> kind = kind t, tags = tags t, content = content t,
                 created_at = now_ms w div 1000 \<rparr>, k)]\<rparr>)"
  using assms by (simp add: publish_def withRetry_def Let_def)

lemma retry_loop_keeps_signs:
  "sign_calls (snd (retry_loop m f d cap e (publish_attempt E p urls ev) sleep_ms x)) = sign_calls x"
proof (induction m arbitrary: d e x)
  case 0
  then show ?case by simp
next
  case (Suc m)
  obtain r x1 where a: "publish_attempt E p urls ev x = (r, x1)"
    by (cases "publish_attempt E p urls ev x")
  have x1: "sign_calls x1 = sign_calls x"
    using a by (auto simp add: publish_attempt_def)
  have sl: "sign_calls (sleep_ms dd x1) = sign_calls x1" for dd
    by (simp add: sleep_ms_def)
  show ?case
    by (cases r) (simp_all add: a x1 Suc.IH sl)
qed

text \<open>
  C2. On a connected client \<open>publish\<close> signs the template once and then attempts. If
  the attempts before the \<open>j\<close>-th (counted from 0, within \<open>maxAttempts\<close>) are rejected
  by every configured relay and in the \<open>j\<close>-th some relay accepts, the promise is
  fulfilled after exactly \<open>j + 1\<close> sends and \<open>j\<close> sleeps, the \<open>i\<close>-th of
  \<open>initialDelay * factor ^ i\<close> capped by \<open>maxDelay\<close>; for \<open>j = 0\<close>: one relay accepting
  the first send fulfils the promise with one send and no sleep, whatever the others do.
  If all \<open>maxAttempts\<close> attempts are rejected by every relay, the promise is rejected
  after \<open>maxAttempts\<close> sends and \<open>maxAttempts - 1\<close> sleeps. A sleep is only made after an
  attempt that every relay rejected. The retry loop is the one modelled from the spec; the
  race of the sends in time is not modelled, only which promises settle and how.
\<close>

theorem publish_any_relay_accepts:
  assumes "client_after E dr ls opts w0 calls = (c, w)" and "isConnected c"
  shows "\<exists>p k ev. pool c = Some p \<and> secretKey c = Some k
     \<and> ev = finalizeEvent E \<lparr> kind = kind t, tags = tags t, content = content t,
                                created_at = now_ms w div 1000 \<rparr> k
     \<and> sign_calls (snd (publish E c t w)) = sign_calls w @
          [(\<lparr> kind = kind t, tags = tags t, content = content t,
               created_at = now_ms w div 1000 \<rparr>, k)]
     \<and> (\<forall>j. j < maxAttempts (publishRetry c)
            \<and> (\<forall>i<j. list_all (\<lambda>r. r = Rejects) (replies E c ev (length (sends w) + i)))
            \<and> Accepts \<in> set (replies E c ev (length (sends w) + j)) \<longrightarrow>
              fst (publish E c t w) = Fulfilled ()
              \<and> sends (snd (publish E c t w)) = sends w @ replicate (Suc j) (p, relays c, ev)
              \<and> slept (snd (publish E c t w)) =
                  slept w @ backoff_delays (backoff_factor E) (publishRetry c) j)
     \<and> (0 < maxAttempts (publishRetry c)
          \<and> (\<forall>i<maxAttempts (publishRetry c).
                 list_all (\<lambda>r. r = Rejects) (replies E c ev (length (sends w) + i))) \<longrightarrow>
              fst (publish E c t w) = Rejected (Error ''All promises were rejected'')
              \<and> sends (snd (publish E c t w)) =
                  sends w @ replicate (maxAttempts (publishRetry c)) (p, relays c, ev)
              \<and> slept (snd (publish E c t w)) =
                  slept w @ backoff_delays (backoff_factor E) (publishRetry c)
                              (maxAttempts (publishRetry c) - 1))
     \<and> (slept (snd (publish E c t w)) \<noteq> slept w \<longrightarrow>
          list_all (\<lambda>r. r = Rejects) (replies E c ev (length (sends w))))"
proof -
  have ok: "client_ok E c" using assms(1) by (rule client_after_ok)
  obtain p k where p: "pool c = Some p" and k: "secretKey c = Some k"
    using connected_has_pool_and_key[OF ok] assms(2) by (auto simp add: isConnected_def)
  define u where "u = \<lparr> kind = kind t, tags = tags t, content = content t,
                        created_at = now_ms w div 1000 \<rparr>"
  define ev where "ev = finalizeEvent E u k"
  define w1 where "w1 = w\<lparr>sign_calls := sign_calls w @ [(u, k)]\<rparr>"
  define n where "n = maxAttempts (publishRetry c)"
  define run where "run = retry_loop n (backoff_factor E) (initialDelay (publishRetry c))
       (maxDelay (publishRetry c)) (Error ''retry: no attempt made'')
       (publish_attempt E p (relays c) ev) sleep_ms w1"
  have pub: "publish E c t w = run"
    unfolding run_def n_def ev_def u_def w1_def using p k by (rule publish_connected)
  have w1: "sends w1 = sends w" "slept w1 = slept w" "sign_calls w1 = sign_calls w @ [(u, k)]"
    by (simp_all add: w1_def)
  have s: "sign_calls (snd run) = sign_calls w @ [(u, k)]"
    unfolding run_def retry_loop_keeps_signs w1 ..
  have a: "fst run = Fulfilled ()
              \<and> sends (snd run) = sends w @ replicate (Suc j) (p, relays c, ev)
              \<and> slept (snd run) = slept w @ backoff_delays (backoff_factor E) (publishRetry c) j"
    if "j < n"
      and "\<forall>i<j. list_all (\<lambda>r. r = Rejects) (replies E c ev (length (sends w) + i))"
      and "Accepts \<in> set (replies E c ev (length (sends w) + j))" for j
  proof -
    have 1: "\<forall>i<j. list_all (\<lambda>r. r = Rejects)
           (map (\<lambda>url. relay_reply E (length (sends w1) + i) url ev) (relays c))"
      using that(2) by (simp add: replies_def w1)
    have 2: "\<not> list_all (\<lambda>r. r = Rejects)
           (map (\<lambda>url. relay_reply E (length (sends w1) + j) url ev) (relays c))"
      using accept_not_all_reject[OF that(3)] by (simp add: replies_def w1)
    have 3: "promise_any (map (\<lambda>url. relay_reply E (length (sends w) + j) url ev) (relays c))
        = Fulfilled ()"
      using promise_any_accept[OF that(3)] by (simp add: replies_def)
    show ?thesis
      using retry_loop_until[OF that(1) 1 2, of "backoff_factor E" "initialDelay (publishRetry c)"
          "maxDelay (publishRetry c)" "Error ''retry: no attempt made''" p] 3
      unfolding run_def[symmetric] w1 by (simp add: backoff_delays_def)
  qed
  have b: "fst run = Rejected (Error ''All promises were rejected'')
              \<and> sends (snd run) = sends w @ replicate n (p, relays c, ev)
              \<and> slept (snd run) =
                  slept w @ backoff_delays (backoff_factor E) (publishRetry c) (n - 1)"
    if "0 < n"
      and "\<forall>i<n. list_all (\<lambda>r. r = Rejects) (replies E c ev (length (sends w) + i))"
  proof -
    have 1: "\<forall>i<n. list_all (\<lambda>r. r = Rejects)
           (map (\<lambda>url. relay_reply E (length (sends w1) + i) url ev) (relays c))"
      using that(2) by (simp add: replies_def w1)
    show ?thesis
      using retry_loop_exhausted[OF that(1) 1, of "backoff_factor E" "initialDelay (publishRetry c)"
          "maxDelay (publishRetry c)" "Error ''retry: no attempt made''" p]
      unfolding run_def[symmetric] w1 by (simp add: backoff_delays_def)
  qed
  have d: "list_all (\<lambda>r. r = Rejects) (replies E c ev (length (sends w)))"
    if "slept (snd run) \<noteq> slept w"
  proof -
    have "slept (snd run) \<noteq> slept w1" using that by (simp add: w1)
    then show ?thesis
      unfolding run_def using retry_loop_sleep_needs_rejection[of n "backoff_factor E"
          "initialDelay (publishRetry c)" "maxDelay (publishRetry c)"
          "Error ''retry: no attempt made''" E p "relays c" ev w1]
      by (simp add: replies_def w1)
  qed
  have "pool c = Some p \<and> secretKey c = Some k \<and> ev = finalizeEvent E u k
     \<and> sign_calls (snd run) = sign_calls w @ [(u, k)]
     \<and> (\<forall>j. j < n
            \<and> (\<forall>i<j. list_all (\<lambda>r. r = Rejects) (replies E c ev (length (sends w) + i)))
            \<and> Accepts \<in> set (replies E c ev (length (sends w) + j)) \<longrightarrow>
              fst run = Fulfilled ()
              \<and> sends (snd run) = sends w @ replicate (Suc j) (p, relays c, ev)
              \<and> slept (snd run) = slept w @ backoff_delays (backoff_factor E) (publishRetry c) j)
     \<and> (0 < n \<and> (\<forall>i<n. list_all (\<lambda>r. r = Rejects) (replies E c ev (length (sends w) + i))) \<longrightarrow>
              fst run = Rejected (Error ''All promises were rejected'')
              \<and> sends (snd run) = sends w @ replicate n (p, relays c, ev)
              \<and> slept (snd run) =
                  slept w @ backoff_delays (backoff_factor E) (publishRetry c) (n - 1))
     \<and> (slept (snd run) \<noteq> slept w \<longrightarrow>
          list_all (\<lambda>r. r = Rejects) (replies E c ev (length (sends w))))"
    using p k ev_def s a b d by blast
  then show ?thesis
    unfolding pub[symmetric] n_def u_def by blast
qed

theorem publish_any_relay_accepts_witness:
  "(\<exists>c w. client_after demo_env [] memory_backend demo_options (demo_world []) [Connect] = (c, w)
      \<and> isConnected c
      \<and> replies demo_env c demo_event 0 = [Rejects, Accepts, Rejects]
      \<and> fst (publish demo_env c demo_template w) = Fulfilled ()
      \<and> length (sends (snd (publish demo_env c demo_template w))) = 1
      \<and> slept (snd (publish demo_env c demo_template w)) = [])
   \<and> (\<exists>c w. client_after flaky_env [] memory_backend demo_options (demo_world []) [Connect] = (c, w)
      \<and> isConnected c
      \<and> replies flaky_env c demo_event 0 = [Rejects, Rejects, Rejects]
      \<and> replies flaky_env c demo_event 1 = [Rejects, Accepts, Rejects]
      \<and> fst (publish flaky_env c demo_template w) = Fulfilled ()
      \<and> length (sends (snd (publish flaky_env c demo_template w))) = 2
      \<and> slept (snd (publish flaky_env c demo_template w)) = [1000])"
proof -
  have first: "\<exists>c w. client_after demo_env [] memory_backend demo_options (demo_world []) [Connect] = (c, w)
      \<and> isConnected c
      \<and> replies demo_env c demo_event 0 = [Rejects, Accepts, Rejects]
      \<and> fst (publish demo_env c demo_template w) = Fulfilled ()
      \<and> length (sends (snd (publish demo_env c demo_template w))) = 1
      \<and> slept (snd (publish demo_env c demo_template w)) = []"
  proof -
    obtain c w where cw:
      "client_after demo_env [] memory_backend demo_options (demo_world []) [Connect] = (c, w)"
      by (cases "client_after demo_env [] memory_backend demo_options (demo_world []) [Connect]")
    note f = first_connect_fields[OF cw demo_env_first_key(1)]
    have conn: "isConnected c" by (rule f(1))
    have r: "replies demo_env c e n = [Rejects, Accepts, Rejects]" for e n
      by (simp add: replies_def f demo_env_def)
    obtain p k ev where
      A: "\<And>j. j < maxAttempts (publishRetry c)
            \<and> (\<forall>i<j. list_all (\<lambda>r. r = Rejects) (replies demo_env c ev (length (sends w) + i)))
            \<and> Accepts \<in> set (replies demo_env c ev (length (sends w) + j)) \<Longrightarrow>
              fst (publish demo_env c demo_template w) = Fulfilled ()
              \<and> sends (snd (publish demo_env c demo_template w)) =
                  sends w @ replicate (Suc j) (p, relays c, ev)
              \<and> slept (snd (publish demo_env c demo_template w)) =
                  slept w @ backoff_delays (backoff_factor demo_env) (publishRetry c) j"
      using publish_any_relay_accepts[OF cw conn, of demo_template] by blast
    have "fst (publish demo_env c demo_template w) = Fulfilled ()
              \<and> sends (snd (publish demo_env c demo_template w)) =
                  sends w @ replicate (Suc 0) (p, relays c, ev)
              \<and> slept (snd (publish demo_env c demo_template w)) =
                  slept w @ backoff_delays (backoff_factor demo_env) (publishRetry c) 0"
      by (rule A) (simp add: f r)
    then have "fst (publish demo_env c demo_template w) = Fulfilled ()
        \<and> length (sends (snd (publish demo_env c demo_template w))) = 1
        \<and> slept (snd (publish demo_env c demo_template w)) = []"
      by (simp add: f backoff_delays_def)
    then show ?thesis using cw conn r by blast
  qed
  have second: "\<exists>c w. client_after flaky_env [] memory_backend demo_options (demo_world []) [Connect] = (c, w)
      \<and> isConnected c
      \<and> replies flaky_env c demo_event 0 = [Rejects, Rejects, Rejects]
      \<and> replies flaky_env c demo_event 1 = [Rejects, Accepts, Rejects]
      \<and> fst (publish flaky_env c demo_template w) = Fulfilled ()
      \<and> length (sends (snd (publish flaky_env c demo_template w))) = 2
      \<and> slept (snd (publish flaky_env c demo_template w)) = [1000]"
  proof -
    obtain c w where cw:
      "client_after flaky_env [] memory_backend demo_options (demo_world []) [Connect] = (c, w)"
      by (cases "client_after flaky_env [] memory_backend demo_options (demo_world []) [Connect]")
    note f = first_connect_fields[OF cw demo_env_first_key(3)]
    have conn: "isConnected c" by (rule f(1))
    have r0: "replies flaky_env c e 0 = [Rejects, Rejects, Rejects]" for e
      by (simp add: replies_def f flaky_env_def)
    have r1: "replies flaky_env c e (Suc 0) = [Rejects, Accepts, Rejects]" for e
      by (simp add: replies_def f flaky_env_def)
    have bf: "backoff_factor flaky_env = 2"
      by (simp add: flaky_env_def demo_env_def)
    obtain p k ev where
      A: "\<And>j. j < maxAttempts (publishRetry c)
            \<and> (\<forall>i<j. list_all (\<lambda>r. r = Rejects) (replies flaky_env c ev (length (sends w) + i)))
            \<and> Accepts \<in> set (replies flaky_env c ev (length (sends w) + j)) \<Longrightarrow>
              fst (publish flaky_env c demo_template w) = Fulfilled ()
              \<and> sends (snd (publish flaky_env c demo_template w)) =
                  sends w @ replicate (Suc j) (p, relays c, ev)
              \<and> slept (snd (publish flaky_env c demo_template w)) =
                  slept w @ backoff_delays (backoff_factor flaky_env) (publishRetry c) j"
      using publish_any_relay_accepts[OF cw conn, of demo_template] by blast
    have "fst (publish flaky_env c demo_template w) = Fulfilled ()
              \<and> sends (snd (publish flaky_env c demo_template w)) =
                  sends w @ replicate (Suc 1) (p, relays c, ev)
              \<and> slept (snd (publish flaky_env c demo_template w)) =
                  slept w @ backoff_delays (backoff_factor flaky_env) (publishRetry c) 1"
      by (rule A) (simp add: f r0 r1)
    then have "fst (publish flaky_env c demo_template w) = Fulfilled ()
        \<and> length (sends (snd (publish flaky_env c demo_template w))) = 2
        \<and> slept (snd (publish flaky_env c demo_template w)) = [1000]"
      by (simp add: f bf backoff_delays_def)
    then show ?thesis using cw conn r0 r1 by auto
  qed
  show ?thesis using first second by blast
qed

section \<open>subscribe\<close>

lemma noop_repeated: "(call_unsubscribe Noop ^^ n) w = w"
  by (induction n) (simp_all add: call_unsubscribe_def)

text \<open>
  C8. For the client after any history: \<open>subscribe\<close> on an unconnected client adds the
  warning \<open>NostrClient not connected. Call connect() first.\<close> to the console, does
  nothing else and returns the empty closure; on a connected client with no filter it adds
  the warning \<open>[NostrClient] No filters provided\<close>, does nothing else and returns the
  empty closure. Calling the empty closure any number of times leaves every world as it is.
  On a connected client with at least one filter, the filters after the first play no
  part: \<open>subscribeMany\<close> is called with the first filter alone, and when it throws the
  error is logged and the empty closure is returned. No path of the model ends in an
  error.
\<close>

theorem subscribe_guards:
  assumes "client_after E dr ls opts w0 calls = (c, w)"
  shows "(\<not> isConnected c \<longrightarrow>
            subscribe E c filters w =
              (Noop, w\<lparr>console := console w @
                 [Warn ''NostrClient not connected. Call connect() first.'']\<rparr>))
     \<and> (isConnected c \<longrightarrow>
            subscribe E c [] w =
              (Noop, w\<lparr>console := console w @ [Warn ''[NostrClient] No filters provided'']\<rparr>))
     \<and> (\<forall>n (x :: 's world). (call_unsubscribe Noop ^^ n) x = x)
     \<and> (isConnected c \<longrightarrow>
            subscribe E c (f0 # others) w = subscribe E c [f0] w
            \<and> (\<exists>p. pool c = Some p
                 \<and> (if subscribeMany_throws E (length (subs_opened w))
                    then fst (subscribe E c (f0 # others) w) = Noop
                         \<and> subs_opened (snd (subscribe E c (f0 # others) w)) = subs_opened w
                    else fst (subscribe E c (f0 # others) w) = CloseSub (length (subs_opened w))
                         \<and> subs_opened (snd (subscribe E c (f0 # others) w)) =
                             subs_opened w @ [(p, relays c, f0)])))"
proof -
  have ok: "client_ok E c" using assms by (rule client_after_ok)
  have a: "subscribe E c filters w =
              (Noop, w\<lparr>console := console w @
                 [Warn ''NostrClient not connected. Call connect() first.'']\<rparr>)"
    if "\<not> isConnected c"
  proof -
    have "pool c = None"
      using ok that by (simp add: isConnected_def unconnected_has_no_pool)
    then show ?thesis by (simp add: subscribe_def)
  qed
  have b: "subscribe E c [] w =
              (Noop, w\<lparr>console := console w @ [Warn ''[NostrClient] No filters provided'']\<rparr>)
    \<and> subscribe E c (f0 # others) w = subscribe E c [f0] w
    \<and> (\<exists>p. pool c = Some p
                 \<and> (if subscribeMany_throws E (length (subs_opened w))
                    then fst (subscribe E c (f0 # others) w) = Noop
                         \<and> subs_opened (snd (subscribe E c (f0 # others) w)) = subs_opened w
                    else fst (subscribe E c (f0 # others) w) = CloseSub (length (subs_opened w))
                         \<and> subs_opened (snd (subscribe E c (f0 # others) w)) =
                             subs_opened w @ [(p, relays c, f0)]))"
    if "isConnected c"
  proof -
    have "u_isConnected c" using that by (simp add: isConnected_def)
    from connected_has_pool_and_key[OF ok this] obtain p where p: "pool c = Some p"
      by blast
    show ?thesis
      using p by (simp add: subscribe_def subscribe_try_def Let_def)
  qed
  have n: "\<forall>n (x :: 's world). (call_unsubscribe Noop ^^ n) x = x"
    by (simp add: noop_repeated)
  show ?thesis using a b n by blast
qed

theorem subscribe_guards_witness:
  "(\<exists>c w. client_after demo_env [] memory_backend demo_options (demo_world []) [] = (c, w)
      \<and> \<not> isConnected c
      \<and> subscribe demo_env c [Filter [25000] []] w =
          (Noop, w\<lparr>console := console w @
             [Warn ''NostrClient not connected. Call connect() first.'']\<rparr>)
      \<and> (call_unsubscribe Noop ^^ 3) w = w)
   \<and> (\<exists>c w. client_after demo_env [] memory_backend demo_options (demo_world []) [Connect] = (c, w)
      \<and> isConnected c
      \<and> subscribe demo_env c [] w =
          (Noop, w\<lparr>console := console w @ [Warn ''[NostrClient] No filters provided'']\<rparr>)
      \<and> fst (subscribe demo_env c [Filter [25000] [], Filter [1] []] w) = CloseSub 0
      \<and> map (\<lambda>(p, urls, f). f) (subs_opened (snd (subscribe demo_env c [Filter [25000] [], Filter [1] []] w)))
           = [Filter [25000] []])"
proof -
  have first: "\<exists>c w. client_after demo_env [] memory_backend demo_options (demo_world []) [] = (c, w)
      \<and> \<not> isConnected c
      \<and> subscribe demo_env c [Filter [25000] []] w =
          (Noop, w\<lparr>console := console w @
             [Warn ''NostrClient not connected. Call connect() first.'']\<rparr>)
      \<and> (call_unsubscribe Noop ^^ 3) w = w"
  proof -
    obtain c w where cw:
      "client_after demo_env [] memory_backend demo_options (demo_world []) [] = (c, w)"
      by (cases "client_after demo_env [] memory_backend demo_options (demo_world []) []")
    have nc: "\<not> isConnected c"
      using cw by (auto simp add: client_after_def run_calls_def new_client_def isConnected_def)
    show ?thesis
      using cw nc subscribe_guards[OF cw, of "[Filter [25000] []]"] by blast
  qed
  have second: "\<exists>c w. client_after demo_env [] memory_backend demo_options (demo_world []) [Connect] = (c, w)
      \<and> isConnected c
      \<and> subscribe demo_env c [] w =
          (Noop, w\<lparr>console := console w @ [Warn ''[NostrClient] No filters provided'']\<rparr>)
      \<and> fst (subscribe demo_env c [Filter [25000] [], Filter [1] []] w) = CloseSub 0
      \<and> map (\<lambda>(p, urls, f). f) (subs_opened (snd (subscribe demo_env c [Filter [25000] [], Filter [1] []] w)))
           = [Filter [25000] []]"
  proof -
    obtain c w where cw:
      "client_after demo_env [] memory_backend demo_options (demo_world []) [Connect] = (c, w)"
      by (cases "client_after demo_env [] memory_backend demo_options (demo_world []) [Connect]")
    note fc = first_connect_fields[OF cw demo_env_first_key(1)]
    have conn: "isConnected c" by (rule fc(1))
    have so: "subs_opened w = []" by (rule fc(8))
    have nt: "\<not> subscribeMany_throws demo_env n" for n
      by (simp add: demo_env_def)
    have e: "subscribe demo_env c [] w =
          (Noop, w\<lparr>console := console w @ [Warn ''[NostrClient] No filters provided'']\<rparr>)"
      using subscribe_guards[OF cw, of "[]"] conn by blast
    obtain p where "fst (subscribe demo_env c (Filter [25000] [] # [Filter [1] []]) w) =
          CloseSub (length (subs_opened w))
       \<and> subs_opened (snd (subscribe demo_env c (Filter [25000] [] # [Filter [1] []]) w)) =
          subs_opened w @ [(p, relays c, Filter [25000] [])]"
      using subscribe_guards[OF cw, of "[]" "Filter [25000] []" "[Filter [1] []]"] conn nt
      by auto
    then have x: "fst (subscribe demo_env c [Filter [25000] [], Filter [1] []] w) = CloseSub 0
      \<and> map (\<lambda>(p, urls, f). f) (subs_opened (snd (subscribe demo_env c [Filter [25000] [], Filter [1] []] w)))
           = [Filter [25000] []]"
      by (simp add: so)
    show ?thesis
      by (rule exI[of _ c], rule exI[of _ w]) (use cw conn e x in simp)
  qed
  show ?thesis using first second by blast
qed

section \<open>fetch: close reasons and callbacks\<close>

lemma startsWith_iff: "startsWith s p \<longleftrightarrow> (\<exists>post. s = p @ post)"
  unfolding startsWith_def
  by (metis append_eq_conv_conj append_take_drop_id)

lemma js_includes_iff: "js_includes s p \<longleftrightarrow> (\<exists>pre post. s = pre @ p @ post)"
proof (induction s)
  case Nil
  then show ?case by auto
next
  case (Cons c cs)
  show ?case
  proof
    assume "js_includes (c # cs) p"
    then consider "startsWith (c # cs) p" | "js_includes cs p" by auto
    then show "\<exists>pre post. c # cs = pre @ p @ post"
    proof cases
      case 1
      then obtain post where "c # cs = p @ post" using startsWith_iff by blast
      then have "c # cs = [] @ p @ post" by simp
      then show ?thesis by blast
    next
      case 2
      then obtain pre post where "cs = pre @ p @ post" using Cons.IH by blast
      then have "c # cs = (c # pre) @ p @ post" by simp
      then show ?thesis by blast
    qed
  next
    assume "\<exists>pre post. c # cs = pre @ p @ post"
    then obtain pre post where e: "c # cs = pre @ p @ post" by blast
    show "js_includes (c # cs) p"
    proof (cases pre)
      case Nil
      then have "startsWith (c # cs) p" using e startsWith_iff by auto
      then show ?thesis by simp
    next
      case (Cons a pre')
      then have "cs = pre' @ p @ post" using e by simp
      then have "js_includes cs p" using Cons.IH by blast
      then show ?thesis by simp
    qed
  qed
qed

lemma toLowerCase_char_cases:
  "toLowerCase_char c = d \<longleftrightarrow>
     (if 65 \<le> (of_char c :: nat) \<and> (of_char c :: nat) \<le> 90 then (of_char d :: nat) = of_char c + 32 else d = c)"
proof -
  have inj: "(of_char (char_of (of_char c + 32 :: nat)) :: nat) = of_char d \<longleftrightarrow> char_of (of_char c + 32 :: nat) = d"
    by (rule of_char_eq_iff)
  have rt: "of_char (char_of (of_char c + 32 :: nat)) = (of_char c + 32 :: nat)" if "(of_char c :: nat) \<le> 90"
    using that by (simp add: of_char_of)
  show ?thesis
  proof (cases "65 \<le> (of_char c :: nat) \<and> (of_char c :: nat) \<le> 90")
    case True
    then have "toLowerCase_char c = char_of (of_char c + 32 :: nat)"
      by (simp add: toLowerCase_char_def)
    moreover have "char_of (of_char c + 32 :: nat) = d \<longleftrightarrow> (of_char c + 32 :: nat) = of_char d"
      using inj rt True by metis
    ultimately show ?thesis using True by auto
  next
    case False
    then have "toLowerCase_char c = c"
      by (auto simp add: toLowerCase_char_def)
    then show ?thesis using False by auto
  qed
qed

lemma toLowerCase_char_letter:
  assumes "(of_char d :: nat) = of_char u + 32" and "65 \<le> (of_char u :: nat)" and "(of_char u :: nat) \<le> 90"
  shows "toLowerCase_char c = d \<longleftrightarrow> c = d \<or> c = u"
proof -
  have cu: "(of_char c :: nat) = of_char u \<longleftrightarrow> c = u" by (rule of_char_eq_iff)
  have cd: "(of_char c :: nat) = of_char d \<longleftrightarrow> c = d" by (rule of_char_eq_iff)
  show ?thesis
    unfolding toLowerCase_char_cases using assms cu cd by (cases "c = d"; cases "c = u"; auto)
qed

lemma lower_e: "toLowerCase_char c = CHR ''e'' \<longleftrightarrow> c = CHR ''e'' \<or> c = CHR ''E''"
  by (rule toLowerCase_char_letter) simp_all

lemma lower_o: "toLowerCase_char c = CHR ''o'' \<longleftrightarrow> c = CHR ''o'' \<or> c = CHR ''O''"
  by (rule toLowerCase_char_letter) simp_all

lemma lower_s: "toLowerCase_char c = CHR ''s'' \<longleftrightarrow> c = CHR ''s'' \<or> c = CHR ''S''"
  by (rule toLowerCase_char_letter) simp_all

lemma map_eq_four:
  "map f b = [x1, x2, x3, x4] \<longleftrightarrow> (\<exists>c1 c2 c3 c4. b = [c1, c2, c3, c4] \<and> f c1 = x1 \<and> f c2 = x2 \<and> f c3 = x3 \<and> f c4 = x4)"
  by (auto simp: map_eq_Cons_conv)

lemma map_eq_three_parts:
  "map f s = a @ b @ c \<longleftrightarrow>
     (\<exists>a' b' c'. s = a' @ b' @ c' \<and> map f a' = a \<and> map f b' = b \<and> map f c' = c)"
proof
  assume "map f s = a @ b @ c"
  then obtain a' r where 1: "s = a' @ r" "a = map f a'" "b @ c = map f r"
    using map_eq_append_conv[of f s a "b @ c"] by blast
  from 1(3) obtain b' c' where 2: "r = b' @ c'" "b = map f b'" "c = map f c'"
    using append_eq_map_conv[of b c f r] by blast
  show "\<exists>a' b' c'. s = a' @ b' @ c' \<and> map f a' = a \<and> map f b' = b \<and> map f c' = c"
    using 1 2 by blast
next
  assume "\<exists>a' b' c'. s = a' @ b' @ c' \<and> map f a' = a \<and> map f b' = b \<and> map f c' = c"
  then show "map f s = a @ b @ c" by auto
qed


lemma eose_window:
  "js_includes (toLowerCase s) ''eose'' \<longleftrightarrow>
     (\<exists>pre c1 c2 c3 c4 post. s = pre @ [c1, c2, c3, c4] @ post
        \<and> (c1 = CHR ''e'' \<or> c1 = CHR ''E'') \<and> (c2 = CHR ''o'' \<or> c2 = CHR ''O'')
        \<and> (c3 = CHR ''s'' \<or> c3 = CHR ''S'') \<and> (c4 = CHR ''e'' \<or> c4 = CHR ''E''))"
proof -
  define t where "t = ''eose''"
  define low where "low c1 c2 c3 c4 \<longleftrightarrow> toLowerCase_char c1 = CHR ''e'' \<and> toLowerCase_char c2 = CHR ''o''
        \<and> toLowerCase_char c3 = CHR ''s'' \<and> toLowerCase_char c4 = CHR ''e''" for c1 c2 c3 c4
  have four: "map toLowerCase_char b = t \<longleftrightarrow> (\<exists>c1 c2 c3 c4. b = [c1, c2, c3, c4] \<and> low c1 c2 c3 c4)" for b
    unfolding t_def low_def by (rule map_eq_four)
  have "js_includes (toLowerCase s) t \<longleftrightarrow> (\<exists>x y. map toLowerCase_char s = x @ t @ y)"
    unfolding js_includes_iff toLowerCase_def ..
  also have "\<dots> \<longleftrightarrow> (\<exists>pre b post. s = pre @ b @ post \<and> map toLowerCase_char b = t)"
    unfolding map_eq_three_parts by blast
  also have "\<dots> \<longleftrightarrow> (\<exists>pre c1 c2 c3 c4 post. s = pre @ [c1, c2, c3, c4] @ post \<and> low c1 c2 c3 c4)"
    unfolding four by blast
  finally show ?thesis
    unfolding t_def low_def lower_e lower_o lower_s .
qed

lemma is_eose_reason_iff:
  "is_eose_reason r \<longleftrightarrow>
     (\<exists>pre c1 c2 c3 c4 post. r = JString (pre @ [c1, c2, c3, c4] @ post)
        \<and> (c1 = CHR ''e'' \<or> c1 = CHR ''E'') \<and> (c2 = CHR ''o'' \<or> c2 = CHR ''O'')
        \<and> (c3 = CHR ''s'' \<or> c3 = CHR ''S'') \<and> (c4 = CHR ''e'' \<or> c4 = CHR ''E''))"
proof (cases r)
  case JUndefined
  then show ?thesis by (simp add: is_eose_reason_def)
next
  case (JString s)
  then show ?thesis
    by (simp add: is_eose_reason_def eose_window)
qed

lemma run_callbacks_Nil: "run_callbacks st [] = st"
  by (simp add: run_callbacks_def)

lemma run_callbacks_Cons: "run_callbacks st (cb # cbs) = run_callbacks (deliver st cb) cbs"
  by (simp add: run_callbacks_def)

lemma run_callbacks_append:
  "run_callbacks st (xs @ ys) = run_callbacks (run_callbacks st xs) ys"
  by (simp add: run_callbacks_def)

lemma events_of_append: "events_of (xs @ ys) = events_of xs @ events_of ys"
  by (induction xs rule: events_of.induct) simp_all

lemma events_of_map_OnEvent: "events_of (map OnEvent es) = es"
  by (induction es) simp_all


lemma finish_resolved: "resolved (finish ok e st)"
  by (simp add: finish_def Let_def)

lemma finish_done: "resolved st \<Longrightarrow> finish ok e st = st"
  by (simp add: finish_def)

lemma finish_events: "events (finish ok e st) = events st"
  by (simp add: finish_def Let_def)


text \<open>
  Once the flag is set, a close callback and the timer change nothing, and an event is
  still pushed onto the array.
\<close>

lemma deliver_done:
  assumes "resolved st"
  shows "deliver st cb = st\<lparr>events := events st @ events_of [cb]\<rparr>"
proof (cases cb)
  case (OnEvent e)
  then show ?thesis by (simp add: onevent_def)
next
  case (OnClose reasons)
  then show ?thesis using assms by (simp add: onclose_def finish_done)
next
  case TimerFired
  then show ?thesis using assms by (simp add: on_timeout_def finish_done)
qed

lemma run_done:
  "resolved st \<Longrightarrow> run_callbacks st cbs = st\<lparr>events := events st @ events_of cbs\<rparr>"
proof (induction cbs arbitrary: st)
  case Nil
  then show ?case by (simp add: run_callbacks_Nil)
next
  case (Cons cb cbs)
  let ?st1 = "st\<lparr>events := events st @ events_of [cb]\<rparr>"
  have r: "resolved ?st1" using Cons.prems by simp
  have e: "events_of (cb # cbs) = events_of [cb] @ events_of cbs"
    using events_of_append[of "[cb]" cbs] by simp
  show ?case
    unfolding run_callbacks_Cons deliver_done[OF Cons.prems] Cons.IH[OF r] e by simp
qed



lemma run_events:
  "\<not> resolved st \<Longrightarrow> run_callbacks st (map OnEvent es) = st\<lparr>events := events st @ es\<rparr>"
proof (induction es arbitrary: st)
  case Nil
  then show ?case by (simp add: run_callbacks_Nil)
next
  case (Cons e es)
  have "\<not> resolved (st\<lparr>events := events st @ [e]\<rparr>)"
    using Cons.prems by simp
  then show ?case
    using Cons.IH[of "st\<lparr>events := events st @ [e]\<rparr>"]
    by (simp add: run_callbacks_Cons onevent_def)
qed


lemma promise_of_more_events:
  "promise_of (st\<lparr>events := events st @ es\<rparr>) =
     (case promise_of st of
        Fulfilled xs \<Rightarrow> Fulfilled (xs @ es)
      | Rejected e \<Rightarrow> Rejected e
      | Pending \<Rightarrow> Pending)"
  by (simp add: promise_of_def split: list.splits settle.splits)

lemma hasEose_iff:
  "hasEose reasons \<longleftrightarrow> (\<exists>r. r \<in> set reasons \<and> is_eose_reason r)"
  by (auto simp: hasEose_def list_ex_iff)

lemma close_first:
  assumes "fetch_inv st" "\<not> resolved st"
  shows "promise_of (run_callbacks st (OnClose reasons # later)) =
     (if hasEose reasons then Fulfilled (events st @ events_of later)
      else Rejected (Error (''No relay response: '' @ js_join reasons)))"
proof -
  let ?st1 = "deliver st (OnClose reasons)"
  have r: "resolved ?st1" by (simp add: onclose_def finish_resolved)
  have p1: "promise_of ?st1 = (if hasEose reasons then Fulfilled (events st)
      else Rejected (Error (''No relay response: '' @ js_join reasons)))"
    using assms by (auto simp add: onclose_def finish_def fetch_inv_def promise_of_def Let_def split: if_splits)
  show ?thesis
    unfolding run_callbacks_Cons run_done[OF r] promise_of_more_events p1 by simp
qed

lemma timer_first:
  assumes "fetch_inv st" "\<not> resolved st"
  shows "promise_of (run_callbacks st (TimerFired # later)) =
     Rejected (Error ''No relay response: timeout'')"
proof -
  let ?st1 = "deliver st TimerFired"
  have r: "resolved ?st1" by (simp add: on_timeout_def finish_resolved)
  have p1: "promise_of ?st1 = Rejected (Error ''No relay response: timeout'')"
    using assms by (auto simp add: on_timeout_def finish_def fetch_inv_def promise_of_def Let_def split: if_splits)
  show ?thesis
    unfolding run_callbacks_Cons run_done[OF r] promise_of_more_events p1 by simp
qed

lemma fetch_connected:
  "pool c = Some p \<Longrightarrow>
   fetch c f t w = (Inr fetch_start,
     w\<lparr> subs_opened := subs_opened w @ [(p, relays c, f)],
         timers := timers w @ [case t of None \<Rightarrow> 5000 | Some t \<Rightarrow> t] \<rparr>)"
  by (simp add: fetch_def fetch_start_def)

lemma start_then_events:
  "run_callbacks fetch_start (map OnEvent es) = fetch_start\<lparr>events := es\<rparr>"
  using run_events[of fetch_start es] by (simp add: fetch_start_def)

lemma events_then_close:
  "promise_of (run_callbacks fetch_start (map OnEvent es @ OnClose reasons # later)) =
     (if hasEose reasons then Fulfilled (es @ events_of later)
      else Rejected (Error (''No relay response: '' @ js_join reasons)))"
proof -
  let ?st = "fetch_start\<lparr>events := es\<rparr>"
  have 2: "fetch_inv ?st" "\<not> resolved ?st" "events ?st = es"
    by (simp_all add: fetch_inv_def fetch_start_def)
  show ?thesis
    unfolding run_callbacks_append start_then_events using close_first[OF 2(1,2)] 2(3) by simp
qed

lemma events_then_timer:
  "promise_of (run_callbacks fetch_start (map OnEvent es @ TimerFired # later)) =
     Rejected (Error ''No relay response: timeout'')"
proof -
  let ?st = "fetch_start\<lparr>events := es\<rparr>"
  have 2: "fetch_inv ?st" "\<not> resolved ?st"
    by (simp_all add: fetch_inv_def fetch_start_def)
  show ?thesis
    unfolding run_callbacks_append start_then_events using timer_first[OF 2] by simp
qed

lemma only_events_pending:
  "promise_of (run_callbacks fetch_start (map OnEvent es)) = Pending"
  unfolding start_then_events by (simp add: promise_of_def fetch_start_def)




lemma ex_mem_swap:
  "(\<exists>r. r \<in> S \<and> (\<exists>pre c1 c2 c3 c4 post. r = F pre c1 c2 c3 c4 post \<and> P c1 c2 c3 c4)) \<longleftrightarrow>
   (\<exists>pre c1 c2 c3 c4 post. F pre c1 c2 c3 c4 post \<in> S \<and> P c1 c2 c3 c4)"
  by blast

lemma hasEose_window:
  "hasEose reasons \<longleftrightarrow>
       (\<exists>pre c1 c2 c3 c4 post.
                JString (pre @ [c1, c2, c3, c4] @ post) \<in> set reasons
                \<and> (c1 = CHR ''e'' \<or> c1 = CHR ''E'') \<and> (c2 = CHR ''o'' \<or> c2 = CHR ''O'')
                \<and> (c3 = CHR ''s'' \<or> c3 = CHR ''S'') \<and> (c4 = CHR ''e'' \<or> c4 = CHR ''E''))"
  unfolding hasEose_iff is_eose_reason_iff by (rule ex_mem_swap)

lemma hasEose_examples:
  "hasEose [JString ''closed automatically on EOSE'']"
  "hasEose [JString ''eose'']"
  "\<not> hasEose [JString ''connection failed'', JUndefined]"
  by (simp_all add: hasEose_def is_eose_reason_def toLowerCase_def startsWith_def lower_e lower_o lower_s)

lemma connected_fetch:
  assumes "client_after E dr ls opts w0 calls = (c, w)" and "isConnected c"
  shows "\<exists>p. pool c = Some p
     \<and> fetch c f timeoutMs w = (Inr fetch_start,
          w\<lparr> subs_opened := subs_opened w @ [(p, relays c, f)],
              timers := timers w @ [case timeoutMs of None \<Rightarrow> 5000 | Some t \<Rightarrow> t] \<rparr>)"
proof -
  have ok: "client_ok E c" using assms(1) by (rule client_after_ok)
  have "u_isConnected c" using assms(2) by (simp add: isConnected_def)
  from connected_has_pool_and_key[OF ok this] obtain p where p: "pool c = Some p" by blast
  show ?thesis using p fetch_connected[OF p] by blast
qed

text \<open>
  C1. On a connected client \<open>fetch\<close> opens one subscription with the filter on the
  configured relays, sets one timer and returns a pending promise. When the close callback
  is the first completion signal after any events, then at that moment the promise is
  fulfilled with exactly the events received so far if some close reason is a string
  with the letters e, o, s, e in a row, each in either case; otherwise it is rejected with
  the error \<open>No relay response: \<close> followed by the joined reasons. With no event before
  such a close the promise is fulfilled with the empty list. Whatever callbacks come
  later, a rejected promise stays rejected with the same error and a fulfilled one stays
  fulfilled, with the array it holds: events pushed later are read through it.
\<close>

theorem fetch_resolves_iff_eose:
  assumes "client_after E dr ls opts w0 calls = (c, w)" and "isConnected c"
  shows "\<exists>st0 w' p. pool c = Some p \<and> fetch c f timeoutMs w = (Inr st0, w')
     \<and> w' = w\<lparr> subs_opened := subs_opened w @ [(p, relays c, f)],
                 timers := timers w @ [case timeoutMs of None \<Rightarrow> 5000 | Some t \<Rightarrow> t] \<rparr>
     \<and> (\<forall>es reasons.
          promise_of (run_callbacks st0 (map OnEvent es @ [OnClose reasons])) =
            (if \<exists>pre c1 c2 c3 c4 post.
                  JString (pre @ [c1, c2, c3, c4] @ post) \<in> set reasons
                  \<and> (c1 = CHR ''e'' \<or> c1 = CHR ''E'') \<and> (c2 = CHR ''o'' \<or> c2 = CHR ''O'')
                  \<and> (c3 = CHR ''s'' \<or> c3 = CHR ''S'') \<and> (c4 = CHR ''e'' \<or> c4 = CHR ''E'')
             then Fulfilled es
             else Rejected (Error (''No relay response: '' @ js_join reasons))))
     \<and> (\<forall>es reasons later.
          promise_of (run_callbacks st0 (map OnEvent es @ OnClose reasons # later)) =
            (if \<exists>pre c1 c2 c3 c4 post.
                  JString (pre @ [c1, c2, c3, c4] @ post) \<in> set reasons
                  \<and> (c1 = CHR ''e'' \<or> c1 = CHR ''E'') \<and> (c2 = CHR ''o'' \<or> c2 = CHR ''O'')
                  \<and> (c3 = CHR ''s'' \<or> c3 = CHR ''S'') \<and> (c4 = CHR ''e'' \<or> c4 = CHR ''E'')
             then Fulfilled (es @ events_of later)
             else Rejected (Error (''No relay response: '' @ js_join reasons))))
     \<and> (\<forall>reasons.
          hasEose reasons \<longrightarrow> promise_of (run_callbacks st0 [OnClose reasons]) = Fulfilled [])"
proof -
  obtain p where p: "pool c = Some p"
    and f: "fetch c f timeoutMs w = (Inr fetch_start,
          w\<lparr> subs_opened := subs_opened w @ [(p, relays c, f)],
              timers := timers w @ [case timeoutMs of None \<Rightarrow> 5000 | Some t \<Rightarrow> t] \<rparr>)"
    using connected_fetch[OF assms] by blast
  have a: "promise_of (run_callbacks fetch_start (map OnEvent es @ OnClose reasons # later)) =
          (if \<exists>pre c1 c2 c3 c4 post.
                JString (pre @ [c1, c2, c3, c4] @ post) \<in> set reasons
                \<and> (c1 = CHR ''e'' \<or> c1 = CHR ''E'') \<and> (c2 = CHR ''o'' \<or> c2 = CHR ''O'')
                \<and> (c3 = CHR ''s'' \<or> c3 = CHR ''S'') \<and> (c4 = CHR ''e'' \<or> c4 = CHR ''E'')
           then Fulfilled (es @ events_of later)
           else Rejected (Error (''No relay response: '' @ js_join reasons)))" for es reasons later
    unfolding events_then_close hasEose_window ..
  have a0: "promise_of (run_callbacks fetch_start (map OnEvent es @ [OnClose reasons])) =
          (if \<exists>pre c1 c2 c3 c4 post.
                JString (pre @ [c1, c2, c3, c4] @ post) \<in> set reasons
                \<and> (c1 = CHR ''e'' \<or> c1 = CHR ''E'') \<and> (c2 = CHR ''o'' \<or> c2 = CHR ''O'')
                \<and> (c3 = CHR ''s'' \<or> c3 = CHR ''S'') \<and> (c4 = CHR ''e'' \<or> c4 = CHR ''E'')
           then Fulfilled es
           else Rejected (Error (''No relay response: '' @ js_join reasons)))" for es reasons
    using a[of es reasons "[]"] by simp
  have b: "hasEose reasons \<longrightarrow>
          promise_of (run_callbacks fetch_start [OnClose reasons]) = Fulfilled []" for reasons
    using events_then_close[of "[]" reasons "[]"] by simp
  show ?thesis
    unfolding f using p a a0 b by blast
qed

theorem fetch_resolves_iff_eose_witness:
  "\<exists>c w st0 w'.
     client_after demo_env [] memory_backend demo_options (demo_world []) [Connect] = (c, w)
     \<and> isConnected c
     \<and> fetch c (Filter [25000] []) None w = (Inr st0, w')
     \<and> map (\<lambda>(p, urls, f). (urls, f)) (subs_opened w') =
          [([''wss://a'', ''wss://b'', ''wss://c''], Filter [25000] [])]
     \<and> timers w' = [5000]
     \<and> promise_of (run_callbacks st0
          [OnEvent demo_event, OnClose [JString ''closed automatically on EOSE'']])
        = Fulfilled [demo_event]
     \<and> promise_of (run_callbacks st0
          [OnEvent demo_event, OnClose [JString ''closed automatically on EOSE''], TimerFired])
        = Fulfilled [demo_event]
     \<and> promise_of (run_callbacks st0 [OnClose [JString ''closed automatically on EOSE'']])
        = Fulfilled []
     \<and> promise_of (run_callbacks st0 [OnClose [JString ''connection failed'', JUndefined]])
        = Rejected (Error ''No relay response: connection failed, '')"
proof -
  obtain c w where cw:
    "client_after demo_env [] memory_backend demo_options (demo_world []) [Connect] = (c, w)"
    by (cases "client_after demo_env [] memory_backend demo_options (demo_world []) [Connect]")
  note fc = first_connect_fields[OF cw demo_env_first_key(1)]
  have conn: "isConnected c" by (rule fc(1))
  have tm: "timers w = []"
    using cw
    by (auto simp add: client_after_def run_calls_def connect_def load_or_generate_def
      generate_and_store_def draw_key_def safeStorageSet_def new_client_def memory_backend_def
      demo_options_def demo_world_def Let_def split: outcome.splits)
  obtain st0 w' p where f: "fetch c (Filter [25000] []) None w = (Inr st0, w')"
    and w': "w' = w\<lparr> subs_opened := subs_opened w @ [(p, relays c, Filter [25000] [])],
                 timers := timers w @ [case None of None \<Rightarrow> 5000 | Some t \<Rightarrow> t] \<rparr>"
    and a0: "\<And>es reasons.
        promise_of (run_callbacks st0 (map OnEvent es @ [OnClose reasons])) =
          (if hasEose reasons then Fulfilled es
           else Rejected (Error (''No relay response: '' @ js_join reasons)))"
    and a: "\<And>es reasons later.
        promise_of (run_callbacks st0 (map OnEvent es @ OnClose reasons # later)) =
          (if hasEose reasons then Fulfilled (es @ events_of later)
           else Rejected (Error (''No relay response: '' @ js_join reasons)))"
    using fetch_resolves_iff_eose[OF cw conn, of "Filter [25000] []" None]
    unfolding hasEose_window[symmetric] by blast
  have s: "map (\<lambda>(p, urls, f). (urls, f)) (subs_opened w') =
          [([''wss://a'', ''wss://b'', ''wss://c''], Filter [25000] [])]"
    unfolding w' by (simp add: fc)
  have t: "timers w' = [5000]"
    unfolding w' by (simp add: tm)
  have 0: "promise_of (run_callbacks st0
          [OnEvent demo_event, OnClose [JString ''closed automatically on EOSE'']])
        = Fulfilled [demo_event]"
    using a0[of "[demo_event]" "[JString ''closed automatically on EOSE'']"]
    by (simp add: hasEose_examples)
  have 1: "promise_of (run_callbacks st0
          [OnEvent demo_event, OnClose [JString ''closed automatically on EOSE''], TimerFired])
        = Fulfilled [demo_event]"
    using a[of "[demo_event]" "[JString ''closed automatically on EOSE'']" "[TimerFired]"]
    by (simp add: hasEose_examples)
  have 2: "promise_of (run_callbacks st0 [OnClose [JString ''closed automatically on EOSE'']])
        = Fulfilled []"
    using a0[of "[]" "[JString ''closed automatically on EOSE'']"]
    by (simp add: hasEose_examples)
  have 3: "promise_of (run_callbacks st0 [OnClose [JString ''connection failed'', JUndefined]])
        = Rejected (Error ''No relay response: connection failed, '')"
    using a0[of "[]" "[JString ''connection failed'', JUndefined]"]
    by (simp add: hasEose_examples js_text_def)
  show ?thesis
    by (rule exI[of _ c], rule exI[of _ w], rule exI[of _ st0], rule exI[of _ w'])
      (intro conjI cw conn f s t 0 1 2 3)
qed




text \<open>
  C5. On a connected client \<open>fetch\<close> sets one timer, with the delay \<open>timeoutMs\<close>, 5000
  when the argument is left out. In logical time: as long as only events arrive (no relay
  signals completion, none closes) the promise stays pending, so it is not rejected before
  the timer fires; when the timer fires the promise is rejected with the error
  \<open>No relay response: timeout\<close>, and stays so. How long after the delay the runtime
  runs the timer callback is not part of the model.
\<close>

theorem fetch_times_out:
  assumes "client_after E dr ls opts w0 calls = (c, w)" and "isConnected c"
  shows "\<exists>st0 w' p. pool c = Some p \<and> fetch c f timeoutMs w = (Inr st0, w')
     \<and> w' = w\<lparr> subs_opened := subs_opened w @ [(p, relays c, f)],
                 timers := timers w @ [case timeoutMs of None \<Rightarrow> 5000 | Some t \<Rightarrow> t] \<rparr>
     \<and> timers (snd (fetch c f None w)) = timers w @ [5000]
     \<and> (\<forall>t. timers (snd (fetch c f (Some t) w)) = timers w @ [t])
     \<and> (\<forall>es. promise_of (run_callbacks st0 (map OnEvent es)) = Pending)
     \<and> (\<forall>es later.
          promise_of (run_callbacks st0 (map OnEvent es @ TimerFired # later)) =
            Rejected (Error ''No relay response: timeout''))"
proof -
  obtain p where p: "pool c = Some p"
    and f: "fetch c f timeoutMs w = (Inr fetch_start,
          w\<lparr> subs_opened := subs_opened w @ [(p, relays c, f)],
              timers := timers w @ [case timeoutMs of None \<Rightarrow> 5000 | Some t \<Rightarrow> t] \<rparr>)"
    using connected_fetch[OF assms] by blast
  have d: "timers (snd (fetch c f None w)) = timers w @ [5000]"
    "\<forall>t. timers (snd (fetch c f (Some t) w)) = timers w @ [t]"
    using p by (simp_all add: fetch_def)
  show ?thesis
    unfolding f using p d only_events_pending events_then_timer by simp
qed

theorem fetch_times_out_witness:
  "\<exists>c w st0 w'.
     client_after demo_env [] memory_backend demo_options (demo_world []) [Connect] = (c, w)
     \<and> isConnected c
     \<and> fetch c (Filter [25000] []) None w = (Inr st0, w')
     \<and> timers w' = [5000]
     \<and> timers (snd (fetch c (Filter [25000] []) (Some 250) w)) = [250]
     \<and> promise_of (run_callbacks st0 [OnEvent demo_event, OnEvent demo_event]) = Pending
     \<and> promise_of (run_callbacks st0 [OnEvent demo_event, TimerFired])
          = Rejected (Error ''No relay response: timeout'')"
proof -
  obtain c w where cw:
    "client_after demo_env [] memory_backend demo_options (demo_world []) [Connect] = (c, w)"
    by (cases "client_after demo_env [] memory_backend demo_options (demo_world []) [Connect]")
  note fc = first_connect_fields[OF cw demo_env_first_key(1)]
  have conn: "isConnected c" by (rule fc(1))
  have tm: "timers w = []"
    using cw
    by (auto simp add: client_after_def run_calls_def connect_def load_or_generate_def
      generate_and_store_def draw_key_def safeStorageSet_def new_client_def memory_backend_def
      demo_options_def demo_world_def Let_def split: outcome.splits)
  obtain st0 w' p where f: "fetch c (Filter [25000] []) None w = (Inr st0, w')"
    and w': "w' = w\<lparr> subs_opened := subs_opened w @ [(p, relays c, Filter [25000] [])],
                 timers := timers w @ [case None of None \<Rightarrow> 5000 | Some t \<Rightarrow> t] \<rparr>"
    and d: "\<And>t. timers (snd (fetch c (Filter [25000] []) (Some t) w)) = timers w @ [t]"
    and a: "\<And>es. promise_of (run_callbacks st0 (map OnEvent es)) = Pending"
    and b: "\<And>es later.
          promise_of (run_callbacks st0 (map OnEvent es @ TimerFired # later)) =
            Rejected (Error ''No relay response: timeout'')"
    using fetch_times_out[OF cw conn, of "Filter [25000] []" None] by blast
  have t: "timers w' = [5000]"
    unfolding w' by (simp add: tm)
  have t2: "timers (snd (fetch c (Filter [25000] []) (Some 250) w)) = [250]"
    using d[of 250] by (simp add: tm)
  have 1: "promise_of (run_callbacks st0 [OnEvent demo_event, OnEvent demo_event]) = Pending"
    using a[of "[demo_event, demo_event]"] by simp
  have 2: "promise_of (run_callbacks st0 [OnEvent demo_event, TimerFired])
          = Rejected (Error ''No relay response: timeout'')"
    using b[of "[demo_event]" "[]"] by simp
  show ?thesis
    by (rule exI[of _ c], rule exI[of _ w], rule exI[of _ st0], rule exI[of _ w'])
      (intro conjI cw conn f t t2 1 2)
qed

end
